theory Spec2Isabelle
  imports Complex_Main "HOL-Library.Word"
begin

section \<open>Go values used by the Milvus retriever repository\<close>

text \<open>
  Go errors are values. \<open>Errorf msg\<close> is \<^verbatim>\<open>fmt.Errorf(msg)\<close> with the
  formatted text, \<open>Wrap msg e\<close> is \<^verbatim>\<open>fmt.Errorf("msg: %w", e)\<close>, and
  \<open>StoreError code msg\<close> is an error produced by the Milvus client (the code is the
  status the store answered with).
\<close>

datatype error = Errorf string | Wrap string error | StoreError nat string

text \<open>
  A call either panics (index out of range, slice bounds out of range), returns an
  error, or returns a value.
\<close>

datatype 'a result = Panic string | Err error | Ok 'a

text \<open>\<^verbatim>\<open>%d\<close> of a non-negative integer, and of a Go \<^verbatim>\<open>int\<close>.\<close>

definition digit_char :: "nat \<Rightarrow> char" where
  "digit_char d =
     (if d = 0 then CHR ''0'' else if d = 1 then CHR ''1'' else if d = 2 then CHR ''2''
      else if d = 3 then CHR ''3'' else if d = 4 then CHR ''4'' else if d = 5 then CHR ''5''
      else if d = 6 then CHR ''6'' else if d = 7 then CHR ''7'' else if d = 8 then CHR ''8''
      else CHR ''9'')"

function decimal :: "nat \<Rightarrow> string" where
  "decimal n = (if n < 10 then [digit_char n] else decimal (n div 10) @ [digit_char (n mod 10)])"
  by pat_completeness auto
termination
  by (relation "measure (\<lambda>n. n)") auto

declare decimal.simps [simp del]

definition itoa :: "int \<Rightarrow> string" where
  "itoa i = (if i < 0 then CHR ''-'' # decimal (nat (- i)) else decimal (nat i))"

section \<open>The filter compiler (filter.go)\<close>

text \<open>
  \<^verbatim>\<open>universalFilterCondition.Value\<close> has type \<^verbatim>\<open>any\<close>. The values the
  compiler distinguishes are: the nil interface, scalars, slices (of any element type;
  \<^verbatim>\<open>[]string\<close> is a slice of string values), and the slice of sub-conditions
  \<^verbatim>\<open>[]*universalFilterCondition\<close> that the logical operators require. A
  condition is held through a pointer, which may be nil.
\<close>

datatype fvalue =
    VNil
  | VString string
  | VInt int
  | VFloat real
  | VBool bool
  | VSlice "fvalue list"
  | VConds "cond list"
  | VCond cond
and cond =
    NilCond
  | Cond (Field: string) (Operator: string) (Value: fvalue)

definition operatorAnd :: string where "operatorAnd = ''and''"
definition operatorOr :: string where "operatorOr = ''or''"
definition operatorEqual :: string where "operatorEqual = ''eq''"
definition operatorNotEqual :: string where "operatorNotEqual = ''ne''"
definition operatorGreaterThan :: string where "operatorGreaterThan = ''gt''"
definition operatorGreaterThanOrEqual :: string where "operatorGreaterThanOrEqual = ''gte''"
definition operatorLessThan :: string where "operatorLessThan = ''lt''"
definition operatorLessThanOrEqual :: string where "operatorLessThanOrEqual = ''lte''"
definition operatorIn :: string where "operatorIn = ''in''"
definition operatorNotIn :: string where "operatorNotIn = ''not in''"
definition operatorLike :: string where "operatorLike = ''like''"
definition operatorNotLike :: string where "operatorNotLike = ''not like''"
definition operatorBetween :: string where "operatorBetween = ''between''"

lemmas operator_defs =
  operatorAnd_def operatorOr_def operatorEqual_def operatorNotEqual_def
  operatorGreaterThan_def operatorGreaterThanOrEqual_def operatorLessThan_def
  operatorLessThanOrEqual_def operatorIn_def operatorNotIn_def operatorLike_def
  operatorNotLike_def operatorBetween_def

definition comparisonOperators :: "string \<rightharpoonup> string" where
  "comparisonOperators op =
     (if op = operatorEqual then Some ''==''
      else if op = operatorNotEqual then Some ''!=''
      else if op = operatorGreaterThan then Some ''>''
      else if op = operatorGreaterThanOrEqual then Some ''>=''
      else if op = operatorLessThan then Some ''<''
      else if op = operatorLessThanOrEqual then Some ''<=''
      else if op = operatorLike then Some ''like''
      else if op = operatorNotLike then Some ''not like''
      else None)"

record convertResult =
  exprStr :: string
  params :: "string \<rightharpoonup> fvalue"

text \<open>\<^verbatim>\<open>strings.ReplaceAll(field, ".", "_")\<close>: every byte \<open>.\<close> becomes \<open>_\<close>.\<close>

definition replaceDots :: "string \<Rightarrow> string" where
  "replaceDots s = map (\<lambda>c. if c = CHR ''.'' then CHR ''_'' else c) s"

text \<open>
  \<^verbatim>\<open>strings.ToLower\<close> on the ASCII letters. The two call sites receive an operator
  that the dispatching switch has already matched against a lower-case constant.
\<close>

definition lowerChar :: "char \<Rightarrow> char" where
  "lowerChar c =
     (if 65 \<le> (of_char c :: nat) \<and> (of_char c :: nat) \<le> 90 then char_of ((of_char c :: nat) + 32) else c)"

definition ToLower :: "string \<Rightarrow> string" where
  "ToLower s = map lowerChar s"

text \<open>
  The counter is a Go \<^verbatim>\<open>int\<close> that starts at 0 and is incremented once per leaf
  condition; it is modelled as a natural number (a tree with \<open>2^63\<close> leaves does not
  fit in memory). \<open>convertParamName\<close> returns the name and the incremented counter.
\<close>

definition convertParamName :: "string \<Rightarrow> nat \<Rightarrow> string \<times> nat" where
  "convertParamName field counter =
     (replaceDots field @ ''_'' @ decimal (counter + 1), counter + 1)"

definition convertComparisonCondition ::
  "string \<Rightarrow> string \<Rightarrow> fvalue \<Rightarrow> nat \<Rightarrow> convertResult result \<times> nat" where
  "convertComparisonCondition condField op v counter =
     (if condField = [] \<or> v = VNil then (Err (Errorf ''milvus filter condition is nil''), counter)
      else case comparisonOperators op of
        None \<Rightarrow> (Err (Errorf (''unsupported comparison operator: '' @ op)), counter)
      | Some operator \<Rightarrow>
          (let (paramName, counter') = convertParamName condField counter
           in (Ok \<lparr>exprStr = condField @ '' '' @ operator @ '' {'' @ paramName @ ''}'',
                    params = [paramName \<mapsto> v]\<rparr>, counter')))"

text \<open>
  \<^verbatim>\<open>reflect.ValueOf(v).Kind() == reflect.Slice\<close> with its \<^verbatim>\<open>Len()\<close>, and
  \<^verbatim>\<open>Index(i).Interface()\<close> of a slice value. The two error messages
  below end, in the source, with the \<^verbatim>\<open>%v\<close> rendering of the rejected value, which is
  left out here.
\<close>

fun sliceLen :: "fvalue \<Rightarrow> nat option" where
  "sliceLen (VSlice xs) = Some (length xs)"
| "sliceLen (VConds cs) = Some (length cs)"
| "sliceLen _ = None"

fun sliceIndex :: "fvalue \<Rightarrow> nat \<Rightarrow> fvalue" where
  "sliceIndex (VSlice xs) i = xs ! i"
| "sliceIndex (VConds cs) i = VCond (cs ! i)"
| "sliceIndex v i = VNil"

definition convertInCondition ::
  "string \<Rightarrow> string \<Rightarrow> fvalue \<Rightarrow> nat \<Rightarrow> convertResult result \<times> nat" where
  "convertInCondition condField op v counter =
     (if condField = [] \<or> v = VNil then (Err (Errorf ''milvus filter condition is nil''), counter)
      else case sliceLen v of
        None \<Rightarrow> (Err (Errorf ''in operator value must be a slice with at least one value''), counter)
      | Some n \<Rightarrow>
          if n \<le> 0 then (Err (Errorf ''in operator value must be a slice with at least one value''), counter)
          else
            (let (paramName, counter') = convertParamName condField counter
             in (Ok \<lparr>exprStr = condField @ '' '' @ ToLower op @ '' {'' @ paramName @ ''}'',
                      params = [paramName \<mapsto> v]\<rparr>, counter')))"

definition convertBetweenCondition ::
  "string \<Rightarrow> fvalue \<Rightarrow> nat \<Rightarrow> convertResult result \<times> nat" where
  "convertBetweenCondition condField v counter =
     (if condField = [] \<or> v = VNil then (Err (Errorf ''milvus filter condition is nil''), counter)
      else case sliceLen v of
        None \<Rightarrow> (Err (Errorf ''between operator value must be a slice with two elements''), counter)
      | Some n \<Rightarrow>
          if n \<noteq> 2 then (Err (Errorf ''between operator value must be a slice with two elements''), counter)
          else
            (let (paramBase, counter') = convertParamName condField counter;
                 paramName1 = paramBase @ ''_'' @ itoa 0;
                 paramName2 = paramBase @ ''_'' @ itoa 1
             in (Ok \<lparr>exprStr = condField @ '' >= {'' @ paramName1 @ ''} and '' @ condField
                                @ '' <= {'' @ paramName2 @ ''}'',
                      params = [paramName1 \<mapsto> sliceIndex v 0, paramName2 \<mapsto> sliceIndex v 1]\<rparr>,
                 counter')))"

definition isComparisonOp :: "string \<Rightarrow> bool" where
  "isComparisonOp op \<longleftrightarrow>
     op = operatorEqual \<or> op = operatorNotEqual \<or> op = operatorGreaterThan \<or>
     op = operatorGreaterThanOrEqual \<or> op = operatorLessThan \<or>
     op = operatorLessThanOrEqual \<or> op = operatorLike \<or> op = operatorNotLike"

definition isLogicalOp :: "string \<Rightarrow> bool" where
  "isLogicalOp op \<longleftrightarrow> op = operatorAnd \<or> op = operatorOr"

definition isInOp :: "string \<Rightarrow> bool" where
  "isInOp op \<longleftrightarrow> op = operatorIn \<or> op = operatorNotIn"

text \<open>
  One step of the loop of \<open>convertLogicalCondition\<close>: \<open>acc\<close> is \<^verbatim>\<open>condResult\<close>
  (\<open>None\<close> for the nil pointer), \<open>childRes\<close> the child's result.
\<close>

definition joinLogical :: "string \<Rightarrow> convertResult option \<Rightarrow> convertResult \<Rightarrow> convertResult option" where
  "joinLogical op acc childRes =
     (if exprStr childRes = [] then acc
      else case acc of
        None \<Rightarrow> Some childRes
      | Some condResult \<Rightarrow>
          Some \<lparr>exprStr = ''('' @ exprStr condResult @ '') '' @ ToLower op @ '' ('' @ exprStr childRes @ '')'',
                params = params condResult ++ params childRes\<rparr>)"

fun convertCondition :: "cond \<Rightarrow> nat \<Rightarrow> convertResult result \<times> nat"
and convertLogicalLoop ::
  "string \<Rightarrow> cond list \<Rightarrow> convertResult option \<Rightarrow> nat \<Rightarrow> convertResult option result \<times> nat"
where
  "convertCondition NilCond counter = (Err (Errorf ''milvus filter condition is nil''), counter)"
| "convertCondition (Cond f op v) counter =
     (if isComparisonOp op then convertComparisonCondition f op v counter
      else if isLogicalOp op then
        (case v of
           VNil \<Rightarrow> (Err (Errorf ''milvus filter condition is nil''), counter)
         | VConds conds \<Rightarrow>
             (case convertLogicalLoop op conds None counter of
                (Ok None, counter') \<Rightarrow> (Err (Errorf ''empty logical condition''), counter')
              | (Ok (Some condResult), counter') \<Rightarrow> (Ok condResult, counter')
              | (Err e, counter') \<Rightarrow> (Err e, counter')
              | (Panic p, counter') \<Rightarrow> (Panic p, counter'))
         | _ \<Rightarrow> (Err (Errorf ''invalid logical condition value type''), counter))
      else if isInOp op then convertInCondition f op v counter
      else if op = operatorBetween then convertBetweenCondition f v counter
      else (Err (Errorf (''unsupported operator: '' @ op)), counter))"
| "convertLogicalLoop op [] acc counter = (Ok acc, counter)"
| "convertLogicalLoop op (childCond # conds) acc counter =
     (case convertCondition childCond counter of
        (Ok childRes, counter') \<Rightarrow> convertLogicalLoop op conds (joinLogical op acc childRes) counter'
      | (Err e, counter') \<Rightarrow> (Err e, counter')
      | (Panic p, counter') \<Rightarrow> (Panic p, counter'))"

definition Convert :: "cond \<Rightarrow> convertResult result" where
  "Convert c = fst (convertCondition c 0)"

section \<open>Records of the repository (repository.go, types)\<close>

text \<open>
  The stored row. A \<^verbatim>\<open>float32\<close> is carried as a real number: the repository
  never computes with the components of an embedding, it only measures its length and
  passes it on. A nil and an empty embedding both have length 0 and are the empty list.
\<close>

record MilvusVectorEmbedding =
  ID :: string
  Content :: string
  SourceID :: string
  SourceType :: int
  ChunkID :: string
  KnowledgeID :: string
  KnowledgeBaseID :: string
  TagID :: string
  Embedding :: "real list"
  IsEnabled :: bool

record MilvusVectorEmbeddingWithScore = MilvusVectorEmbedding +
  Score :: real

text \<open>
  Modelled from the spec: \<^verbatim>\<open>types.IndexInfo\<close>, \<^verbatim>\<open>types.RetrieveParams\<close>,
  \<^verbatim>\<open>types.IndexWithScore\<close> and \<^verbatim>\<open>types.RetrieveResult\<close> are declared
  outside the files at hand; the records below hold the fields the repository reads and
  writes (section 3 of the specification).
\<close>

record IndexInfo =
  infoContent :: string
  infoSourceID :: string
  infoSourceType :: int
  infoChunkID :: string
  infoKnowledgeID :: string
  infoKnowledgeBaseID :: string
  infoTagID :: string

datatype RetrieverType = KeywordsRetrieverType | VectorRetrieverType | OtherRetrieverType string

datatype RetrieverEngineType = MilvusRetrieverEngineType

datatype MatchType = MatchTypeEmbedding | MatchTypeKeywords

record RetrieveParams =
  Query :: string
  paramEmbedding :: "real list"
  KnowledgeBaseIDs :: "string list"
  KnowledgeIDs :: "string list"
  TagIDs :: "string list"
  ExcludeKnowledgeIDs :: "string list"
  ExcludeChunkIDs :: "string list"
  TopK :: int
  Threshold :: real
  paramRetrieverType :: RetrieverType

record IndexWithScore =
  resID :: string
  resSourceID :: string
  resSourceType :: int
  resChunkID :: string
  resKnowledgeID :: string
  resKnowledgeBaseID :: string
  resTagID :: string
  resContent :: string
  resScore :: real
  resMatchType :: MatchType

record RetrieveResult =
  Results :: "IndexWithScore list"
  RetrieverEngineType :: RetrieverEngineType
  RetrieverType :: RetrieverType
  Error :: "error option"

text \<open>
  \<^verbatim>\<open>additionalParams map[string]any\<close>: the only entry the repository reads is the
  one under \<^verbatim>\<open>"embedding"\<close>, and only when it holds a
  \<^verbatim>\<open>map[string][]float32\<close>.
\<close>

datatype paramValue = EmbeddingMap "string \<rightharpoonup> real list" | OtherParam

type_synonym additionalParams = "string \<rightharpoonup> paramValue"

definition fieldContent :: string where "fieldContent = ''content''"
definition fieldSourceID :: string where "fieldSourceID = ''source_id''"
definition fieldSourceType :: string where "fieldSourceType = ''source_type''"
definition fieldChunkID :: string where "fieldChunkID = ''chunk_id''"
definition fieldKnowledgeID :: string where "fieldKnowledgeID = ''knowledge_id''"
definition fieldKnowledgeBaseID :: string where "fieldKnowledgeBaseID = ''knowledge_base_id''"
definition fieldTagID :: string where "fieldTagID = ''tag_id''"
definition fieldEmbedding :: string where "fieldEmbedding = ''embedding''"
definition fieldIsEnabled :: string where "fieldIsEnabled = ''is_enabled''"
definition fieldID :: string where "fieldID = ''id''"
definition fieldContentSparse :: string where "fieldContentSparse = ''content_sparse''"

lemmas field_defs =
  fieldContent_def fieldSourceID_def fieldSourceType_def fieldChunkID_def
  fieldKnowledgeID_def fieldKnowledgeBaseID_def fieldTagID_def fieldEmbedding_def
  fieldIsEnabled_def fieldID_def fieldContentSparse_def

section \<open>The Milvus client and the Go runtime as an environment\<close>

text \<open>
  The client library is outside the repository. Every call the repository makes is
  appended to a history, and the client's answer is an arbitrary function of the history
  so far and of the call's arguments: the store may hold any data, fail at any call, and
  change between two calls (other processes write to it too).
\<close>

datatype searchVector = FloatVector "real list" | Text string

record searchOption =
  searchCollection :: string
  searchLimit :: int
  searchVectors :: "searchVector list"
  searchANNSField :: string
  searchRadius :: "real option"
  searchFilter :: "(string \<times> (string \<rightharpoonup> fvalue)) option"
  searchOutputFields :: "string list"

record queryOption =
  queryCollection :: string
  queryFilter :: "(string \<times> (string \<rightharpoonup> fvalue)) option"
  queryOutputFields :: "string list"
  queryLimit :: "int option"
  queryOffset :: "int option"

datatype call =
    HasCollectionCall string
  | CreateCollectionCall string int
  | LoadCollectionCall string
  | AwaitLoadCall string
  | UpsertCall string "MilvusVectorEmbedding list"
  | DeleteCall string string "string list"
  | ListCollectionsCall
  | SearchCall searchOption
  | QueryCall queryOption

text \<open>
  A column of a result set, seen through the accessors the repository uses:
  \<^verbatim>\<open>Name()\<close>, \<^verbatim>\<open>Len()\<close>, \<^verbatim>\<open>GetAsString(i)\<close>,
  \<^verbatim>\<open>GetAsInt64(i)\<close>, \<^verbatim>\<open>GetAsBool(i)\<close>, and, when the column is a
  \<^verbatim>\<open>*column.ColumnDoubleArray\<close>, its \<^verbatim>\<open>Value(i)\<close>.
\<close>

record column =
  colName :: string
  colLen :: nat
  GetAsString :: "nat \<Rightarrow> error + string"
  GetAsInt64 :: "nat \<Rightarrow> error + int"
  GetAsBool :: "nat \<Rightarrow> error + bool"
  DoubleArrayValue :: "(nat \<Rightarrow> error + real list) option"

record ResultSet =
  Fields :: "column list"
  Scores :: "real list"
  ResultCount :: int

record environment =
  hasCollection :: "call list \<Rightarrow> string \<Rightarrow> error + bool"
  createCollection :: "call list \<Rightarrow> string \<Rightarrow> int \<Rightarrow> error option"
  loadCollection :: "call list \<Rightarrow> string \<Rightarrow> error option"
  awaitLoad :: "call list \<Rightarrow> string \<Rightarrow> error option"
  upsert :: "call list \<Rightarrow> string \<Rightarrow> MilvusVectorEmbedding list \<Rightarrow> error option"
  deleteByIDs :: "call list \<Rightarrow> string \<Rightarrow> string \<Rightarrow> string list \<Rightarrow> error option"
  listCollections :: "call list \<Rightarrow> error + string list"
  search :: "call list \<Rightarrow> searchOption \<Rightarrow> error + ResultSet list"
  query :: "call list \<Rightarrow> queryOption \<Rightarrow> error + ResultSet"
  uuidNew :: "nat \<Rightarrow> string"
  rangePerm :: "nat \<Rightarrow> nat \<Rightarrow> nat list"
  float32 :: "real \<Rightarrow> real"

text \<open>
  \<open>uuidNew env k\<close> is the text of the \<open>k\<close>-th identifier \<^verbatim>\<open>uuid.New()\<close> hands
  out. \<open>rangePerm env k n\<close> is the order in which the \<open>k\<close>-th \<^verbatim>\<open>range\<close> over a Go
  map visits a map of \<open>n\<close> entries, as positions in the order of insertion (Go leaves
  the order unspecified). \<open>float32 env\<close> is the rounding of a \<^verbatim>\<open>float64\<close> to a
  \<^verbatim>\<open>float32\<close>.

  The repository: its configured base name, the cache of initialised dimensions, and the
  bookkeeping of the environment (calls made, identifiers drawn, maps ranged over).
\<close>

record milvusRepository =
  collectionBaseName :: string
  initializedCollections :: "int set"
  calls :: "call list"
  uuidCount :: nat
  rangeCount :: nat

definition clientHasCollection :: "environment \<Rightarrow> string \<Rightarrow> milvusRepository \<Rightarrow> (error + bool) \<times> milvusRepository" where
  "clientHasCollection env name m =
     (hasCollection env (calls m) name, m\<lparr>calls := calls m @ [HasCollectionCall name]\<rparr>)"

definition clientCreateCollection :: "environment \<Rightarrow> string \<Rightarrow> int \<Rightarrow> milvusRepository \<Rightarrow> error option \<times> milvusRepository" where
  "clientCreateCollection env name dimension m =
     (createCollection env (calls m) name dimension,
      m\<lparr>calls := calls m @ [CreateCollectionCall name dimension]\<rparr>)"

definition clientLoadCollection :: "environment \<Rightarrow> string \<Rightarrow> milvusRepository \<Rightarrow> error option \<times> milvusRepository" where
  "clientLoadCollection env name m =
     (loadCollection env (calls m) name, m\<lparr>calls := calls m @ [LoadCollectionCall name]\<rparr>)"

definition clientAwaitLoad :: "environment \<Rightarrow> string \<Rightarrow> milvusRepository \<Rightarrow> error option \<times> milvusRepository" where
  "clientAwaitLoad env name m =
     (awaitLoad env (calls m) name, m\<lparr>calls := calls m @ [AwaitLoadCall name]\<rparr>)"

definition clientUpsert :: "environment \<Rightarrow> string \<Rightarrow> MilvusVectorEmbedding list \<Rightarrow> milvusRepository \<Rightarrow> error option \<times> milvusRepository" where
  "clientUpsert env name rows m =
     (upsert env (calls m) name rows, m\<lparr>calls := calls m @ [UpsertCall name rows]\<rparr>)"

definition clientDelete :: "environment \<Rightarrow> string \<Rightarrow> string \<Rightarrow> string list \<Rightarrow> milvusRepository \<Rightarrow> error option \<times> milvusRepository" where
  "clientDelete env name field ids m =
     (deleteByIDs env (calls m) name field ids, m\<lparr>calls := calls m @ [DeleteCall name field ids]\<rparr>)"

definition clientListCollections :: "environment \<Rightarrow> milvusRepository \<Rightarrow> (error + string list) \<times> milvusRepository" where
  "clientListCollections env m =
     (listCollections env (calls m), m\<lparr>calls := calls m @ [ListCollectionsCall]\<rparr>)"

definition clientSearch :: "environment \<Rightarrow> searchOption \<Rightarrow> milvusRepository \<Rightarrow> (error + ResultSet list) \<times> milvusRepository" where
  "clientSearch env opt m =
     (search env (calls m) opt, m\<lparr>calls := calls m @ [SearchCall opt]\<rparr>)"

definition clientQuery :: "environment \<Rightarrow> queryOption \<Rightarrow> milvusRepository \<Rightarrow> (error + ResultSet) \<times> milvusRepository" where
  "clientQuery env opt m =
     (query env (calls m) opt, m\<lparr>calls := calls m @ [QueryCall opt]\<rparr>)"

definition newUUID :: "environment \<Rightarrow> milvusRepository \<Rightarrow> string \<times> milvusRepository" where
  "newUUID env m = (uuidNew env (uuidCount m), m\<lparr>uuidCount := uuidCount m + 1\<rparr>)"

lemmas client_call_defs =
  clientHasCollection_def clientCreateCollection_def clientLoadCollection_def
  clientAwaitLoad_def clientUpsert_def clientDelete_def clientListCollections_def
  clientSearch_def clientQuery_def

section \<open>Collection manager\<close>

definition getCollectionName :: "milvusRepository \<Rightarrow> int \<Rightarrow> string" where
  "getCollectionName m dimension = collectionBaseName m @ ''_'' @ itoa dimension"

text \<open>
  \<open>CreateCollectionCall name dimension\<close> stands for the creation request with the fixed
  schema and index options that \<open>ensureCollection\<close> builds from the name and the
  dimension. \<^verbatim>\<open>LoadCollection\<close> and the \<^verbatim>\<open>Await\<close> of its task are two
  calls.
\<close>

definition ensureCollection :: "environment \<Rightarrow> int \<Rightarrow> milvusRepository \<Rightarrow> unit result \<times> milvusRepository" where
  "ensureCollection env dimension m =
     (let collectionName = getCollectionName m dimension in
      if dimension \<in> initializedCollections m then (Ok (), m)
      else case clientHasCollection env collectionName m of
        (Inl err, m1) \<Rightarrow> (Err (Wrap ''failed to check collection existence'' err), m1)
      | (Inr hasColl, m1) \<Rightarrow>
          (case (if \<not> hasColl then clientCreateCollection env collectionName dimension m1
                 else (None, m1)) of
             (Some err, m2) \<Rightarrow> (Err (Wrap ''failed to create collection'' err), m2)
           | (None, m2) \<Rightarrow>
               (case clientLoadCollection env collectionName m2 of
                  (Some err, m3) \<Rightarrow> (Err (Wrap ''failed to load collection'' err), m3)
                | (None, m3) \<Rightarrow>
                    (case clientAwaitLoad env collectionName m3 of
                       (Some err, m4) \<Rightarrow> (Err (Wrap ''failed to await load collection'' err), m4)
                     | (None, m4) \<Rightarrow>
                         (Ok (), m4\<lparr>initializedCollections :=
                                      insert dimension (initializedCollections m4)\<rparr>)))))"

section \<open>Write path\<close>

definition toMilvusVectorEmbedding :: "IndexInfo \<Rightarrow> additionalParams \<Rightarrow> MilvusVectorEmbedding" where
  "toMilvusVectorEmbedding embedding additional =
     (let vector = \<lparr>ID = [], Content = infoContent embedding, SourceID = infoSourceID embedding,
                     SourceType = infoSourceType embedding, ChunkID = infoChunkID embedding,
                     KnowledgeID = infoKnowledgeID embedding,
                     KnowledgeBaseID = infoKnowledgeBaseID embedding,
                     TagID = infoTagID embedding, Embedding = [], IsEnabled = True\<rparr>
      in case additional fieldEmbedding of
           Some (EmbeddingMap embeddingMap) \<Rightarrow>
             vector\<lparr>Embedding := (case embeddingMap (infoSourceID embedding) of
                                     None \<Rightarrow> [] | Some v \<Rightarrow> v)\<rparr>
         | _ \<Rightarrow> vector)"

text \<open>
  \<open>createUpsert\<close> spreads the rows over ten columns, one per field and in the order of
  the rows; the request is recorded as the collection name with the rows.
\<close>

definition Save :: "environment \<Rightarrow> IndexInfo \<Rightarrow> additionalParams \<Rightarrow> milvusRepository \<Rightarrow> unit result \<times> milvusRepository" where
  "Save env embedding additional m =
     (let embeddingDB = toMilvusVectorEmbedding embedding additional in
      if length (Embedding embeddingDB) = 0
      then (Err (Errorf (''empty embedding vector for chunk ID: '' @ infoChunkID embedding)), m)
      else
        (let dimension = int (length (Embedding embeddingDB)) in
         case ensureCollection env dimension m of
           (Err err, m1) \<Rightarrow> (Err err, m1)
         | (Panic p, m1) \<Rightarrow> (Panic p, m1)
         | (Ok _, m1) \<Rightarrow>
             (let collectionName = getCollectionName m1 dimension;
                  (newID, m2) = newUUID env m1
              in case clientUpsert env collectionName [embeddingDB\<lparr>ID := newID\<rparr>] m2 of
                   (Some err, m3) \<Rightarrow> (Err err, m3)
                 | (None, m3) \<Rightarrow> (Ok (), m3))))"

text \<open>
  The Go map \<^verbatim>\<open>embeddingsByDimension\<close>, kept as the list of its entries in the
  order in which the keys were first inserted;
  \<^verbatim>\<open>groups[k] = append(groups[k], v)\<close> is \<open>appendToGroup k v groups\<close>.
\<close>

fun appendToGroup :: "'k \<Rightarrow> 'v \<Rightarrow> ('k \<times> 'v list) list \<Rightarrow> ('k \<times> 'v list) list" where
  "appendToGroup d e [] = [(d, [e])]"
| "appendToGroup d e ((d', es) # gs) =
     (if d = d' then (d', es @ [e]) # gs else (d', es) # appendToGroup d e gs)"

fun groupByDimension :: "additionalParams \<Rightarrow> IndexInfo list \<Rightarrow> (int \<times> IndexInfo list) list \<Rightarrow> (int \<times> IndexInfo list) list" where
  "groupByDimension additional [] groups = groups"
| "groupByDimension additional (embedding # rest) groups =
     (let embeddingDB = toMilvusVectorEmbedding embedding additional in
      if length (Embedding embeddingDB) = 0 then groupByDimension additional rest groups
      else groupByDimension additional rest
             (appendToGroup (int (length (Embedding embeddingDB))) embedding groups))"

text \<open>The rows of one group, each with a new identifier (the inner loop of \<open>BatchSave\<close>).\<close>

fun assignIDs :: "environment \<Rightarrow> additionalParams \<Rightarrow> IndexInfo list \<Rightarrow> milvusRepository \<Rightarrow> MilvusVectorEmbedding list \<times> milvusRepository" where
  "assignIDs env additional [] m = ([], m)"
| "assignIDs env additional (embedding # rest) m =
     (let embeddingDB = toMilvusVectorEmbedding embedding additional;
          (newID, m1) = newUUID env m;
          (rows, m2) = assignIDs env additional rest m1
      in (embeddingDB\<lparr>ID := newID\<rparr> # rows, m2))"

text \<open>The body of the loop over the groups: one dimension with its records.\<close>

definition saveGroup :: "environment \<Rightarrow> additionalParams \<Rightarrow> int \<times> IndexInfo list \<Rightarrow> milvusRepository \<Rightarrow> unit result \<times> milvusRepository" where
  "saveGroup env additional g m =
     (case ensureCollection env (fst g) m of
        (Err err, m1) \<Rightarrow> (Err err, m1)
      | (Panic p, m1) \<Rightarrow> (Panic p, m1)
      | (Ok _, m1) \<Rightarrow>
          (let collectionName = getCollectionName m1 (fst g);
               (embeddingDBList, m2) = assignIDs env additional (snd g) m1
           in case clientUpsert env collectionName embeddingDBList m2 of
                (Some err, m3) \<Rightarrow>
                  (Err (Wrap (''failed to batch save (dimension '' @ itoa (fst g) @ '')'') err), m3)
              | (None, m3) \<Rightarrow> (Ok (), m3)))"

fun saveGroups :: "environment \<Rightarrow> additionalParams \<Rightarrow> (int \<times> IndexInfo list) list \<Rightarrow> milvusRepository \<Rightarrow> unit result \<times> milvusRepository" where
  "saveGroups env additional [] m = (Ok (), m)"
| "saveGroups env additional (g # gs) m =
     (case saveGroup env additional g m of
        (Ok _, m1) \<Rightarrow> saveGroups env additional gs m1
      | (Err err, m1) \<Rightarrow> (Err err, m1)
      | (Panic p, m1) \<Rightarrow> (Panic p, m1))"

text \<open>
  A \<^verbatim>\<open>range\<close> over a Go map: the entries in the order the environment chooses for
  this range statement.
\<close>

definition rangeMap :: "environment \<Rightarrow> 'a list \<Rightarrow> milvusRepository \<Rightarrow> 'a list \<times> milvusRepository" where
  "rangeMap env entries m =
     (map (\<lambda>i. entries ! i) (rangePerm env (rangeCount m) (length entries)),
      m\<lparr>rangeCount := rangeCount m + 1\<rparr>)"

definition BatchSave :: "environment \<Rightarrow> IndexInfo list \<Rightarrow> additionalParams \<Rightarrow> milvusRepository \<Rightarrow> unit result \<times> milvusRepository" where
  "BatchSave env embeddingList additional m =
     (if length embeddingList = 0 then (Ok (), m)
      else
        (let embeddingsByDimension = groupByDimension additional embeddingList [] in
         if length embeddingsByDimension = 0 then (Ok (), m)
         else
           (let (groups, m1) = rangeMap env embeddingsByDimension m
            in saveGroups env additional groups m1)))"

section \<open>Delete path\<close>

definition DeleteByChunkIDList :: "environment \<Rightarrow> string list \<Rightarrow> int \<Rightarrow> string \<Rightarrow> milvusRepository \<Rightarrow> unit result \<times> milvusRepository" where
  "DeleteByChunkIDList env chunkIDList dimension knowledgeType m =
     (if length chunkIDList = 0 then (Ok (), m)
      else case clientDelete env (getCollectionName m dimension) fieldChunkID chunkIDList m of
        (Some err, m1) \<Rightarrow> (Err (Wrap ''failed to delete by chunk IDs'' err), m1)
      | (None, m1) \<Rightarrow> (Ok (), m1))"

definition DeleteByKnowledgeIDList :: "environment \<Rightarrow> string list \<Rightarrow> int \<Rightarrow> string \<Rightarrow> milvusRepository \<Rightarrow> unit result \<times> milvusRepository" where
  "DeleteByKnowledgeIDList env knowledgeIDList dimension knowledgeType m =
     (if length knowledgeIDList = 0 then (Ok (), m)
      else case clientDelete env (getCollectionName m dimension) fieldKnowledgeID knowledgeIDList m of
        (Some err, m1) \<Rightarrow> (Err (Wrap ''failed to delete by knowledge IDs'' err), m1)
      | (None, m1) \<Rightarrow> (Ok (), m1))"

definition DeleteBySourceIDList :: "environment \<Rightarrow> string list \<Rightarrow> int \<Rightarrow> string \<Rightarrow> milvusRepository \<Rightarrow> unit result \<times> milvusRepository" where
  "DeleteBySourceIDList env sourceIDList dimension knowledgeType m =
     (if length sourceIDList = 0 then (Ok (), m)
      else case clientDelete env (getCollectionName m dimension) fieldSourceID sourceIDList m of
        (Some err, m1) \<Rightarrow> (Err (Wrap ''failed to delete by source IDs'' err), m1)
      | (None, m1) \<Rightarrow> (Ok (), m1))"

section \<open>Storage estimator\<close>

text \<open>
  The estimate is a Go \<^verbatim>\<open>int64\<close>: a 64-bit word read as a signed number, whose
  sums and products wrap. \<^verbatim>\<open>int64(len(s))\<close> is \<open>of_nat (length s)\<close>.
\<close>

definition nlist :: "64 word" where "nlist = 16384"

definition metadataBytes :: "64 word" where "metadataBytes = 32"

definition calculateStorageSize :: "MilvusVectorEmbedding \<Rightarrow> 64 word" where
  "calculateStorageSize embedding =
     (let payloadSizeBytes = 0 + of_nat (length (Content embedding))
                               + of_nat (length (SourceID embedding))
                               + of_nat (length (ChunkID embedding))
                               + of_nat (length (KnowledgeID embedding))
                               + of_nat (length (KnowledgeBaseID embedding))
                               + 8;
          dimensions = of_nat (length (Embedding embedding));
          vectorSizeBytes = dimensions * 4;
          indexBytes = dimensions * (nlist * 4 + 4)
      in payloadSizeBytes + vectorSizeBytes + indexBytes + metadataBytes)"

text \<open>
  The estimate as the specification words it: the byte lengths of all the
  variable-length string fields of the record, 8 bytes for the source type, 4 bytes per
  dimension, the index overhead and the per-row constant.
\<close>

definition specStorageSize :: "MilvusVectorEmbedding \<Rightarrow> int" where
  "specStorageSize embedding =
     int (length (ID embedding)) + int (length (Content embedding))
     + int (length (SourceID embedding)) + int (length (ChunkID embedding))
     + int (length (KnowledgeID embedding)) + int (length (KnowledgeBaseID embedding))
     + int (length (TagID embedding))
     + 8 + 4 * int (length (Embedding embedding))
     + int (length (Embedding embedding)) * (16384 * 4 + 4) + 32"

definition taggedRow :: MilvusVectorEmbedding where
  "taggedRow = \<lparr>ID = [], Content = ''abc'', SourceID = ''s1'', SourceType = 0, ChunkID = ''c1'',
                 KnowledgeID = ''k1'', KnowledgeBaseID = ''b1'', TagID = ''t'',
                 Embedding = [1, 2], IsEnabled = True\<rparr>"

section \<open>Decoding a result set\<close>

definition allFields :: "string list" where
  "allFields = [fieldID, fieldContent, fieldSourceID, fieldSourceType, fieldChunkID,
                fieldKnowledgeID, fieldKnowledgeBaseID, fieldTagID, fieldIsEnabled, fieldEmbedding]"

definition zeroRow :: MilvusVectorEmbeddingWithScore where
  "zeroRow = \<lparr>ID = [], Content = [], SourceID = [], SourceType = 0, ChunkID = [],
               KnowledgeID = [], KnowledgeBaseID = [], TagID = [], Embedding = [],
               IsEnabled = False, Score = 0\<rparr>"

text \<open>\<^verbatim>\<open>rs.GetColumn(fieldName)\<close>: the first column of that name, or nil.\<close>

definition GetColumn :: "ResultSet \<Rightarrow> string \<Rightarrow> column option" where
  "GetColumn rs fieldName = find (\<lambda>c. colName c = fieldName) (Fields rs)"

text \<open>
  One of the loops \<^verbatim>\<open>for i := 0; i < columns.Len(); i++\<close>: read the value at
  \<open>i\<close> (an error ends the decoding), then store it in \<^verbatim>\<open>docs[i]\<close>, which
  panics when the column is longer than \<^verbatim>\<open>docs\<close>.
\<close>

fun fillColumn ::
  "(nat \<Rightarrow> error + 'v) \<Rightarrow> ('v \<Rightarrow> MilvusVectorEmbeddingWithScore \<Rightarrow> MilvusVectorEmbeddingWithScore) \<Rightarrow>
   nat list \<Rightarrow> MilvusVectorEmbeddingWithScore list \<Rightarrow> MilvusVectorEmbeddingWithScore list result" where
  "fillColumn getter setter [] docs = Ok docs"
| "fillColumn getter setter (i # rest) docs =
     (case getter i of
        Inl err \<Rightarrow> Err err
      | Inr val \<Rightarrow>
          if i < length docs then fillColumn getter setter rest (docs[i := setter val (docs ! i)])
          else Panic ''index out of range'')"

definition decodeField ::
  "environment \<Rightarrow> string \<Rightarrow> column \<Rightarrow> MilvusVectorEmbeddingWithScore list \<Rightarrow>
   MilvusVectorEmbeddingWithScore list result" where
  "decodeField env field columns docs =
     (let idx = [0..<colLen columns] in
      if field = fieldID then fillColumn (GetAsString columns) (\<lambda>v d. d\<lparr>ID := v\<rparr>) idx docs
      else if field = fieldContent then fillColumn (GetAsString columns) (\<lambda>v d. d\<lparr>Content := v\<rparr>) idx docs
      else if field = fieldSourceID then fillColumn (GetAsString columns) (\<lambda>v d. d\<lparr>SourceID := v\<rparr>) idx docs
      else if field = fieldSourceType then fillColumn (GetAsInt64 columns) (\<lambda>v d. d\<lparr>SourceType := v\<rparr>) idx docs
      else if field = fieldChunkID then fillColumn (GetAsString columns) (\<lambda>v d. d\<lparr>ChunkID := v\<rparr>) idx docs
      else if field = fieldKnowledgeID then fillColumn (GetAsString columns) (\<lambda>v d. d\<lparr>KnowledgeID := v\<rparr>) idx docs
      else if field = fieldKnowledgeBaseID then fillColumn (GetAsString columns) (\<lambda>v d. d\<lparr>KnowledgeBaseID := v\<rparr>) idx docs
      else if field = fieldTagID then fillColumn (GetAsString columns) (\<lambda>v d. d\<lparr>TagID := v\<rparr>) idx docs
      else if field = fieldIsEnabled then fillColumn (GetAsBool columns) (\<lambda>v d. d\<lparr>IsEnabled := v\<rparr>) idx docs
      else if field = fieldEmbedding then
        (case DoubleArrayValue columns of
           None \<Rightarrow> Ok docs
         | Some valueAt \<Rightarrow>
             (case fillColumn valueAt (\<lambda>v d. d\<lparr>Embedding := map (float32 env) v\<rparr>) idx docs of
                Err err \<Rightarrow> Err (Wrap ''get vector failed'' err)
              | r \<Rightarrow> r))
      else Ok docs)"

fun decodeFields ::
  "environment \<Rightarrow> ResultSet \<Rightarrow> string list \<Rightarrow> MilvusVectorEmbeddingWithScore list \<Rightarrow>
   MilvusVectorEmbeddingWithScore list result" where
  "decodeFields env rs [] docs = Ok docs"
| "decodeFields env rs (field # rest) docs =
     (case GetColumn rs field of
        None \<Rightarrow> decodeFields env rs rest docs
      | Some columns \<Rightarrow>
          if colLen columns = 0 then decodeFields env rs rest docs
          else (case decodeField env field columns docs of
                  Ok docs' \<Rightarrow> decodeFields env rs rest docs'
                | Err err \<Rightarrow> Err err
                | Panic p \<Rightarrow> Panic p))"

definition convertResultSet ::
  "environment \<Rightarrow> ResultSet list \<Rightarrow> (MilvusVectorEmbeddingWithScore list \<times> real list) result" where
  "convertResultSet env resultSet =
     (case resultSet of
        [] \<Rightarrow> Ok ([], [])
      | rs # _ \<Rightarrow>
          (case Fields rs of
             [] \<Rightarrow> Panic ''index out of range''
           | first # _ \<Rightarrow>
               (case decodeFields env rs allFields (replicate (colLen first) zeroRow) of
                  Ok docs \<Rightarrow> Ok (docs, Scores rs)
                | Err err \<Rightarrow> Err err
                | Panic p \<Rightarrow> Panic p)))"

section \<open>Retrieval path\<close>

definition strings :: "string list \<Rightarrow> fvalue" where
  "strings ids = VSlice (map VString ids)"

definition baseFilters :: "RetrieveParams \<Rightarrow> cond list" where
  "baseFilters ps =
     (if length (KnowledgeBaseIDs ps) > 0
      then [Cond fieldKnowledgeBaseID operatorIn (strings (KnowledgeBaseIDs ps))] else [])
     @ (if length (KnowledgeIDs ps) > 0
        then [Cond fieldKnowledgeID operatorIn (strings (KnowledgeIDs ps))] else [])
     @ (if length (TagIDs ps) > 0
        then [Cond fieldTagID operatorIn (strings (TagIDs ps))] else [])
     @ (if length (ExcludeKnowledgeIDs ps) > 0
        then [Cond fieldKnowledgeID operatorNotIn (strings (ExcludeKnowledgeIDs ps))] else [])
     @ (if length (ExcludeChunkIDs ps) > 0
        then [Cond fieldChunkID operatorNotIn (strings (ExcludeChunkIDs ps))] else [])"

definition getBaseFilterForQuery :: "RetrieveParams \<Rightarrow> (string \<times> (string \<rightharpoonup> fvalue)) result" where
  "getBaseFilterForQuery ps =
     (let filters = baseFilters ps in
      if length filters = 0 then Ok ([], Map.empty)
      else case Convert (Cond [] operatorAnd (VConds filters)) of
        Err err \<Rightarrow> Err err
      | Panic p \<Rightarrow> Panic p
      | Ok f \<Rightarrow> Ok (exprStr f, params f))"

definition fromMilvusVectorEmbedding ::
  "string \<Rightarrow> MilvusVectorEmbeddingWithScore \<Rightarrow> MatchType \<Rightarrow> IndexWithScore" where
  "fromMilvusVectorEmbedding rid embedding matchType =
     \<lparr>resID = rid, resSourceID = SourceID embedding, resSourceType = SourceType embedding,
      resChunkID = ChunkID embedding, resKnowledgeID = KnowledgeID embedding,
      resKnowledgeBaseID = KnowledgeBaseID embedding, resTagID = TagID embedding,
      resContent = Content embedding, resScore = Score embedding, resMatchType = matchType\<rparr>"

definition buildRetrieveResult :: "IndexWithScore list \<Rightarrow> RetrieverType \<Rightarrow> RetrieveResult list" where
  "buildRetrieveResult results retrieverType =
     [\<lparr>Results = results, RetrieverEngineType = MilvusRetrieverEngineType,
       RetrieverType = retrieverType, Error = None\<rparr>]"

definition withFilter :: "string \<Rightarrow> (string \<rightharpoonup> fvalue) \<Rightarrow> (string \<times> (string \<rightharpoonup> fvalue)) option" where
  "withFilter expr paramsMap = (if expr \<noteq> [] then Some (expr, paramsMap) else None)"

text \<open>
  The loop of \<open>VectorRetrieve\<close> over the decoded rows: \<^verbatim>\<open>scores[i]\<close> panics
  when there are fewer scores than rows.
\<close>

fun scoreRows ::
  "MilvusVectorEmbeddingWithScore list \<Rightarrow> real list \<Rightarrow> IndexWithScore list result" where
  "scoreRows [] scores = Ok []"
| "scoreRows (s # sets) [] = Panic ''index out of range''"
| "scoreRows (s # sets) (score # scores) =
     (case scoreRows sets scores of
        Ok results \<Rightarrow> Ok (fromMilvusVectorEmbedding (ID s) (s\<lparr>Score := score\<rparr>) MatchTypeEmbedding # results)
      | Err err \<Rightarrow> Err err
      | Panic p \<Rightarrow> Panic p)"

definition VectorRetrieve ::
  "environment \<Rightarrow> RetrieveParams \<Rightarrow> milvusRepository \<Rightarrow> RetrieveResult list result \<times> milvusRepository" where
  "VectorRetrieve env ps m =
     (let dimension = int (length (paramEmbedding ps));
          collectionName = getCollectionName m dimension
      in case clientHasCollection env collectionName m of
        (Inl err, m1) \<Rightarrow> (Err (Wrap ''failed to check collection'' err), m1)
      | (Inr hasColl, m1) \<Rightarrow>
          if \<not> hasColl then (Ok (buildRetrieveResult [] VectorRetrieverType), m1)
          else (case getBaseFilterForQuery ps of
                  Err err \<Rightarrow> (Err (Wrap ''failed to build filter'' err), m1)
                | Panic p \<Rightarrow> (Panic p, m1)
                | Ok (expr, paramsMap) \<Rightarrow>
                    (let searchOpt =
                           \<lparr>searchCollection = collectionName, searchLimit = TopK ps,
                            searchVectors = [FloatVector (paramEmbedding ps)],
                            searchANNSField = fieldEmbedding,
                            searchRadius = (if Threshold ps > 0 then Some (Threshold ps) else None),
                            searchFilter = withFilter expr paramsMap,
                            searchOutputFields = [''*'']\<rparr>
                     in case clientSearch env searchOpt m1 of
                          (Inl err, m2) \<Rightarrow> (Err (Wrap ''failed to search'' err), m2)
                        | (Inr resultSet, m2) \<Rightarrow>
                            (case convertResultSet env resultSet of
                               Err err \<Rightarrow> (Err (Wrap ''failed to convert result set'' err), m2)
                             | Panic p \<Rightarrow> (Panic p, m2)
                             | Ok (sets, scores) \<Rightarrow>
                                 (case scoreRows sets scores of
                                    Ok results \<Rightarrow> (Ok (buildRetrieveResult results VectorRetrieverType), m2)
                                  | Err err \<Rightarrow> (Err err, m2)
                                  | Panic p \<Rightarrow> (Panic p, m2))))))"

text \<open>The guard that selects the collections of this repository by their name.\<close>

definition hasBasePrefix :: "milvusRepository \<Rightarrow> string \<Rightarrow> bool" where
  "hasBasePrefix m collectionName \<longleftrightarrow>
     \<not> (length collectionName \<le> length (collectionBaseName m)
        \<or> take (length (collectionBaseName m)) collectionName \<noteq> collectionBaseName m)"

definition keywordsSearchOption :: "RetrieveParams \<Rightarrow> string \<Rightarrow> string \<Rightarrow> (string \<rightharpoonup> fvalue) \<Rightarrow> searchOption" where
  "keywordsSearchOption ps collectionName expr paramsMap =
     \<lparr>searchCollection = collectionName, searchLimit = TopK ps,
      searchVectors = [Text (Query ps)], searchANNSField = fieldContentSparse,
      searchRadius = None, searchFilter = withFilter expr paramsMap,
      searchOutputFields = [''*'']\<rparr>"

definition keywordRows :: "MilvusVectorEmbeddingWithScore list \<Rightarrow> IndexWithScore list" where
  "keywordRows sets = map (\<lambda>s. fromMilvusVectorEmbedding (ID s) (s\<lparr>Score := 1\<rparr>) MatchTypeKeywords) sets"

fun keywordsLoop ::
  "environment \<Rightarrow> RetrieveParams \<Rightarrow> string list \<Rightarrow> IndexWithScore list \<Rightarrow> milvusRepository \<Rightarrow>
   IndexWithScore list result \<times> milvusRepository" where
  "keywordsLoop env ps [] allResults m = (Ok allResults, m)"
| "keywordsLoop env ps (collectionName # rest) allResults m =
     (if \<not> hasBasePrefix m collectionName then keywordsLoop env ps rest allResults m
      else case getBaseFilterForQuery ps of
        Err err \<Rightarrow> keywordsLoop env ps rest allResults m
      | Panic p \<Rightarrow> (Panic p, m)
      | Ok (expr, paramsMap) \<Rightarrow>
          (case clientSearch env (keywordsSearchOption ps collectionName expr paramsMap) m of
             (Inl err, m1) \<Rightarrow> keywordsLoop env ps rest allResults m1
           | (Inr resultSet, m1) \<Rightarrow>
               (case convertResultSet env resultSet of
                  Err err \<Rightarrow> keywordsLoop env ps rest allResults m1
                | Panic p \<Rightarrow> (Panic p, m1)
                | Ok (sets, scores) \<Rightarrow>
                    keywordsLoop env ps rest (allResults @ keywordRows sets) m1)))"

definition KeywordsRetrieve ::
  "environment \<Rightarrow> RetrieveParams \<Rightarrow> milvusRepository \<Rightarrow> RetrieveResult list result \<times> milvusRepository" where
  "KeywordsRetrieve env ps m =
     (case clientListCollections env m of
        (Inl err, m1) \<Rightarrow> (Err (Wrap ''failed to list collections'' err), m1)
      | (Inr collections, m1) \<Rightarrow>
          (case keywordsLoop env ps collections [] m1 of
             (Err err, m2) \<Rightarrow> (Err err, m2)
           | (Panic p, m2) \<Rightarrow> (Panic p, m2)
           | (Ok allResults, m2) \<Rightarrow>
               if int (length allResults) > TopK ps
               then (if TopK ps < 0 then (Panic ''slice bounds out of range'', m2)
                     else (Ok (buildRetrieveResult (take (nat (TopK ps)) allResults) KeywordsRetrieverType), m2))
               else (Ok (buildRetrieveResult allResults KeywordsRetrieverType), m2)))"

definition Retrieve ::
  "environment \<Rightarrow> RetrieveParams \<Rightarrow> milvusRepository \<Rightarrow> RetrieveResult list result \<times> milvusRepository" where
  "Retrieve env ps m =
     (case paramRetrieverType ps of
        VectorRetrieverType \<Rightarrow> VectorRetrieve env ps m
      | KeywordsRetrieverType \<Rightarrow> KeywordsRetrieve env ps m
      | OtherRetrieverType t \<Rightarrow> (Err (Errorf (''invalid retriever type: '' @ t)), m))"

section \<open>Reading rows by filter\<close>

definition searchByFilter ::
  "environment \<Rightarrow> string \<Rightarrow> cond \<Rightarrow> int option \<Rightarrow> int option \<Rightarrow> milvusRepository \<Rightarrow>
   (MilvusVectorEmbeddingWithScore list \<times> int) result \<times> milvusRepository" where
  "searchByFilter env collectionName filterCond limit offset m =
     (case Convert filterCond of
        Err err \<Rightarrow> (Err err, m)
      | Panic p \<Rightarrow> (Panic p, m)
      | Ok ps \<Rightarrow>
          (let queryOpt = \<lparr>queryCollection = collectionName,
                           queryFilter = withFilter (exprStr ps) (params ps),
                           queryOutputFields = [''*''], queryLimit = limit, queryOffset = offset\<rparr>
           in case clientQuery env queryOpt m of
                (Inl err, m1) \<Rightarrow> (Err err, m1)
              | (Inr resultSet, m1) \<Rightarrow>
                  (case convertResultSet env [resultSet] of
                     Err err \<Rightarrow> (Err err, m1)
                   | Panic p \<Rightarrow> (Panic p, m1)
                   | Ok (embeddings, scores) \<Rightarrow> (Ok (embeddings, ResultCount resultSet), m1))))"


section \<open>Batch field updater\<close>




definition updateTagGroup ::
  "environment \<Rightarrow> string \<Rightarrow> string \<times> string list \<Rightarrow> milvusRepository \<Rightarrow> unit result \<times> milvusRepository" where
  "updateTagGroup env collectionName g m =
     (case searchByFilter env collectionName (Cond fieldChunkID operatorIn (strings (snd g))) None None m of
        (Err err, m1) \<Rightarrow> (Err err, m1)
      | (Panic p, m1) \<Rightarrow> (Panic p, m1)
      | (Ok (embeddings, count), m1) \<Rightarrow>
          (let upsertEmbeddings =
                 map (\<lambda>embedding. MilvusVectorEmbedding.truncate (embedding\<lparr>TagID := fst g\<rparr>)) embeddings
           in if length upsertEmbeddings > 0
              then (case clientUpsert env collectionName upsertEmbeddings m1 of
                      (Some err, m2) \<Rightarrow> (Err err, m2)
                    | (None, m2) \<Rightarrow> (Ok (), m2))
              else (Ok (), m1)))"

fun tagGroupsLoop ::
  "environment \<Rightarrow> string \<Rightarrow> (string \<times> string list) list \<Rightarrow> milvusRepository \<Rightarrow> unit result \<times> milvusRepository" where
  "tagGroupsLoop env collectionName [] m = (Ok (), m)"
| "tagGroupsLoop env collectionName (g # gs) m =
     (case updateTagGroup env collectionName g m of
        (Panic p, m1) \<Rightarrow> (Panic p, m1)
      | (_, m1) \<Rightarrow> tagGroupsLoop env collectionName gs m1)"

fun tagCollectionsLoop ::
  "environment \<Rightarrow> (string \<times> string list) list \<Rightarrow> string list \<Rightarrow> milvusRepository \<Rightarrow> unit result \<times> milvusRepository" where
  "tagCollectionsLoop env tagGroups [] m = (Ok (), m)"
| "tagCollectionsLoop env tagGroups (collectionName # rest) m =
     (if \<not> hasBasePrefix m collectionName then tagCollectionsLoop env tagGroups rest m
      else (let (groups, m1) = rangeMap env tagGroups m
            in case tagGroupsLoop env collectionName groups m1 of
                 (Panic p, m2) \<Rightarrow> (Panic p, m2)
               | (_, m2) \<Rightarrow> tagCollectionsLoop env tagGroups rest m2))"

fun groupByTag :: "(string \<times> string) list \<Rightarrow> (string \<times> string list) list \<Rightarrow> (string \<times> string list) list" where
  "groupByTag [] tagGroups = tagGroups"
| "groupByTag ((chunkID, tagID) # rest) tagGroups = groupByTag rest (appendToGroup tagID chunkID tagGroups)"

definition BatchUpdateChunkTagID ::
  "environment \<Rightarrow> (string \<times> string) list \<Rightarrow> milvusRepository \<Rightarrow> unit result \<times> milvusRepository" where
  "BatchUpdateChunkTagID env chunkTagMap m =
     (if length chunkTagMap = 0 then (Ok (), m)
      else case clientListCollections env m of
        (Inl err, m1) \<Rightarrow> (Err (Wrap ''failed to list collections'' err), m1)
      | (Inr collections, m1) \<Rightarrow>
          (let (entries, m2) = rangeMap env chunkTagMap m1;
               tagGroups = groupByTag entries []
           in tagCollectionsLoop env tagGroups collections m2))"

section \<open>Cross-base copier\<close>

definition HasPrefix :: "string \<Rightarrow> string \<Rightarrow> bool" where
  "HasPrefix s pre \<longleftrightarrow> length s \<ge> length pre \<and> take (length pre) s = pre"

definition TrimPrefix :: "string \<Rightarrow> string \<Rightarrow> string" where
  "TrimPrefix s pre = (if HasPrefix s pre then drop (length pre) s else s)"

text \<open>
  The body of the loop over the rows of a page: \<open>None\<close> when the row is skipped,
  otherwise the row to insert. The identifier of the new source is drawn before the
  identifier of the new row.
\<close>

definition copyRow ::
  "environment \<Rightarrow> (string \<rightharpoonup> string) \<Rightarrow> (string \<rightharpoonup> string) \<Rightarrow> string \<Rightarrow>
   MilvusVectorEmbeddingWithScore \<Rightarrow> milvusRepository \<Rightarrow> MilvusVectorEmbedding option \<times> milvusRepository" where
  "copyRow env sourceToTargetKBIDMap sourceToTargetChunkIDMap targetKnowledgeBaseID sourceEmbedding m =
     (let sourceChunkID = ChunkID sourceEmbedding;
          sourceKnowledgeID = KnowledgeID sourceEmbedding;
          originalSourceID = SourceID sourceEmbedding
      in case sourceToTargetChunkIDMap sourceChunkID of
           None \<Rightarrow> (None, m)
         | Some targetChunkID \<Rightarrow>
             (case sourceToTargetKBIDMap sourceKnowledgeID of
                None \<Rightarrow> (None, m)
              | Some targetKnowledgeID \<Rightarrow>
                  (let (targetSourceID, m1) =
                         (if originalSourceID = sourceChunkID then (targetChunkID, m)
                          else if HasPrefix originalSourceID (sourceChunkID @ ''-'')
                          then (targetChunkID @ ''-'' @ TrimPrefix originalSourceID (sourceChunkID @ ''-''), m)
                          else newUUID env m);
                       (newID, m2) = newUUID env m1
                   in (Some \<lparr>ID = newID, Content = Content sourceEmbedding, SourceID = targetSourceID,
                             SourceType = SourceType sourceEmbedding, ChunkID = targetChunkID,
                             KnowledgeID = targetKnowledgeID, KnowledgeBaseID = targetKnowledgeBaseID,
                             TagID = TagID sourceEmbedding, Embedding = Embedding sourceEmbedding,
                             IsEnabled = IsEnabled sourceEmbedding\<rparr>, m2))))"

fun copyRows ::
  "environment \<Rightarrow> (string \<rightharpoonup> string) \<Rightarrow> (string \<rightharpoonup> string) \<Rightarrow> string \<Rightarrow>
   MilvusVectorEmbeddingWithScore list \<Rightarrow> milvusRepository \<Rightarrow> MilvusVectorEmbedding list \<times> milvusRepository" where
  "copyRows env kbMap chunkMap targetKB [] m = ([], m)"
| "copyRows env kbMap chunkMap targetKB (sourceEmbedding # rest) m =
     (let (target, m1) = copyRow env kbMap chunkMap targetKB sourceEmbedding m;
          (targets, m2) = copyRows env kbMap chunkMap targetKB rest m1
      in (case target of None \<Rightarrow> targets | Some t \<Rightarrow> t # targets, m2))"

definition batchSize :: int where "batchSize = 64"

datatype loopStep = Break | Continue int

text \<open>
  One turn of the loop of \<open>CopyIndices\<close>: read a page (limit \<open>batchSize\<close>, at the
  offset, if any), remap its rows, insert them, and decide whether to go on. \<open>offset\<close>
  is the pointer \<^verbatim>\<open>offset\<close>, nil before the first advance.
\<close>

definition copyPage ::
  "environment \<Rightarrow> string \<Rightarrow> string \<Rightarrow> (string \<rightharpoonup> string) \<Rightarrow> (string \<rightharpoonup> string) \<Rightarrow> string \<Rightarrow>
   int option \<Rightarrow> milvusRepository \<Rightarrow> loopStep result \<times> milvusRepository" where
  "copyPage env collectionName sourceKnowledgeBaseID kbMap chunkMap targetKB offset m =
     (case searchByFilter env collectionName
             (Cond fieldKnowledgeBaseID operatorEqual (VString sourceKnowledgeBaseID))
             (Some batchSize) offset m of
        (Err err, m1) \<Rightarrow> (Err err, m1)
      | (Panic p, m1) \<Rightarrow> (Panic p, m1)
      | (Ok (sourceEmbeddings, count), m1) \<Rightarrow>
          if length sourceEmbeddings = 0 then (Ok Break, m1)
          else
            (let (targetEmbeddings, m2) = copyRows env kbMap chunkMap targetKB sourceEmbeddings m1
             in case (if length targetEmbeddings > 0
                      then clientUpsert env collectionName targetEmbeddings m2
                      else (None, m2)) of
                  (Some err, m3) \<Rightarrow> (Err err, m3)
                | (None, m3) \<Rightarrow>
                    if count < batchSize then (Ok Break, m3)
                    else (Ok (Continue ((case offset of None \<Rightarrow> 0 | Some off \<Rightarrow> off) + count)), m3)))"

text \<open>
  The loop has no bound of its own: it ends when the store answers with an error, an
  empty page or a short page. A run that never ends has the value \<open>None\<close>.
\<close>

partial_function (option) copyLoop ::
  "environment \<Rightarrow> string \<Rightarrow> string \<Rightarrow> (string \<rightharpoonup> string) \<Rightarrow> (string \<rightharpoonup> string) \<Rightarrow> string \<Rightarrow>
   int option \<Rightarrow> milvusRepository \<Rightarrow> (unit result \<times> milvusRepository) option" where
  "copyLoop env collectionName sourceKB kbMap chunkMap targetKB offset m =
     (case copyPage env collectionName sourceKB kbMap chunkMap targetKB offset m of
        (Ok Break, m1) \<Rightarrow> Some (Ok (), m1)
      | (Ok (Continue off), m1) \<Rightarrow> copyLoop env collectionName sourceKB kbMap chunkMap targetKB (Some off) m1
      | (Err err, m1) \<Rightarrow> Some (Err err, m1)
      | (Panic p, m1) \<Rightarrow> Some (Panic p, m1))"

declare copyLoop.simps [code]

text \<open>
  The two remap tables are Go maps; they are given as the lists of their entries (with
  distinct keys) and read through \<open>map_of\<close>.
\<close>

definition CopyIndices ::
  "environment \<Rightarrow> string \<Rightarrow> (string \<times> string) list \<Rightarrow> (string \<times> string) list \<Rightarrow> string \<Rightarrow> int \<Rightarrow> string \<Rightarrow>
   milvusRepository \<Rightarrow> (unit result \<times> milvusRepository) option" where
  "CopyIndices env sourceKnowledgeBaseID sourceToTargetKBIDMap sourceToTargetChunkIDMap
               targetKnowledgeBaseID dimension knowledgeType m =
     (if length sourceToTargetChunkIDMap = 0 then Some (Ok (), m)
      else
        (let collectionName = getCollectionName m dimension in
         case ensureCollection env dimension m of
           (Err err, m1) \<Rightarrow> Some (Err err, m1)
         | (Panic p, m1) \<Rightarrow> Some (Panic p, m1)
         | (Ok _, m1) \<Rightarrow>
             copyLoop env collectionName sourceKnowledgeBaseID (map_of sourceToTargetKBIDMap)
                      (map_of sourceToTargetChunkIDMap) targetKnowledgeBaseID None m1))"

section \<open>The bucket check of the TOS file service\<close>

text \<open>
  \<open>ensureTOSBucket\<close> of the file service, in the same repository, follows the same
  pattern as \<open>ensureCollection\<close>: look for the bucket, create it when the store says it
  is absent. \<open>headErr\<close> is the answer to \<^verbatim>\<open>HeadBucket\<close>, \<open>createErr\<close> the answer
  to \<^verbatim>\<open>CreateBucketV2\<close>. \<^verbatim>\<open>errors.As\<close> looks through the wrapped errors for
  a server error and its status code.
\<close>

fun asServerError :: "error \<Rightarrow> nat option" where
  "asServerError (StoreError code msg) = Some code"
| "asServerError (Wrap msg err) = asServerError err"
| "asServerError (Errorf msg) = None"

definition ensureTOSBucket :: "error option \<Rightarrow> error option \<Rightarrow> unit result" where
  "ensureTOSBucket headErr createErr =
     (case headErr of
        None \<Rightarrow> Ok ()
      | Some err \<Rightarrow>
          if asServerError err = Some 404 then
            (case createErr of
               None \<Rightarrow> Ok ()
             | Some cerr \<Rightarrow>
                 if asServerError cerr = Some 409 then Ok ()
                 else Err (Wrap ''failed to create TOS bucket'' cerr))
          else Err (Wrap ''failed to check TOS bucket'' err))"


section \<open>Example environments\<close>

text \<open>
  Columns as the store returns them, for the examples: a column of strings, of 64-bit
  integers, of booleans and of double arrays; an accessor of another type than the
  column's fails. \<open>rowsResultSet\<close> gives the embeddings as a double-array column, the
  one column type from which \<open>convertResultSet\<close> decodes an embedding.
\<close>

definition columnAt :: "'a list \<Rightarrow> nat \<Rightarrow> error + 'a" where
  "columnAt vals i = (if i < length vals then Inr (vals ! i) else Inl (Errorf ''index out of range''))"

definition notSupported :: "nat \<Rightarrow> error + 'a" where
  "notSupported i = Inl (Errorf ''not supported'')"

definition stringColumn :: "string \<Rightarrow> string list \<Rightarrow> column" where
  "stringColumn name vals =
     \<lparr>colName = name, colLen = length vals, GetAsString = columnAt vals,
      GetAsInt64 = notSupported, GetAsBool = notSupported, DoubleArrayValue = None\<rparr>"

definition int64Column :: "string \<Rightarrow> int list \<Rightarrow> column" where
  "int64Column name vals =
     \<lparr>colName = name, colLen = length vals, GetAsString = notSupported,
      GetAsInt64 = columnAt vals, GetAsBool = notSupported, DoubleArrayValue = None\<rparr>"

definition boolColumn :: "string \<Rightarrow> bool list \<Rightarrow> column" where
  "boolColumn name vals =
     \<lparr>colName = name, colLen = length vals, GetAsString = notSupported,
      GetAsInt64 = notSupported, GetAsBool = columnAt vals, DoubleArrayValue = None\<rparr>"

definition doubleArrayColumn :: "string \<Rightarrow> real list list \<Rightarrow> column" where
  "doubleArrayColumn name vals =
     \<lparr>colName = name, colLen = length vals, GetAsString = notSupported,
      GetAsInt64 = notSupported, GetAsBool = notSupported, DoubleArrayValue = Some (columnAt vals)\<rparr>"

definition rowsResultSet :: "MilvusVectorEmbedding list \<Rightarrow> ResultSet" where
  "rowsResultSet rows =
     \<lparr>Fields = [stringColumn fieldID (map ID rows),
                doubleArrayColumn fieldEmbedding (map Embedding rows),
                stringColumn fieldContent (map Content rows),
                stringColumn fieldSourceID (map SourceID rows),
                int64Column fieldSourceType (map SourceType rows),
                stringColumn fieldChunkID (map ChunkID rows),
                stringColumn fieldKnowledgeID (map KnowledgeID rows),
                stringColumn fieldKnowledgeBaseID (map KnowledgeBaseID rows),
                stringColumn fieldTagID (map TagID rows),
                boolColumn fieldIsEnabled (map IsEnabled rows)],
      Scores = map (\<lambda>r. 1 / 2) rows,
      ResultCount = int (length rows)\<rparr>"

text \<open>
  A store without collections in which every call succeeds; identifiers are
  \<open>id-0\<close>, \<open>id-1\<close>, ..., and a range visits a map in the order of insertion.
\<close>

definition emptyStore :: environment where
  "emptyStore =
     \<lparr>hasCollection = (\<lambda>h name. Inr False),
      createCollection = (\<lambda>h name d. None),
      loadCollection = (\<lambda>h name. None),
      awaitLoad = (\<lambda>h name. None),
      upsert = (\<lambda>h name rows. None),
      deleteByIDs = (\<lambda>h name field ids. None),
      listCollections = (\<lambda>h. Inr []),
      search = (\<lambda>h opt. Inr [rowsResultSet []]),
      query = (\<lambda>h opt. Inr (rowsResultSet [])),
      uuidNew = (\<lambda>k. ''id-'' @ decimal k),
      rangePerm = (\<lambda>k n. [0..<n]),
      float32 = (\<lambda>x. x)\<rparr>"

text \<open>
  A store in which another writer creates the collection between the existence check
  and the creation request: the check answers "absent", the creation is refused because
  the collection already exists.
\<close>

definition conflictStore :: environment where
  "conflictStore =
     emptyStore\<lparr>createCollection := (\<lambda>h name d. Some (StoreError 409 ''collection already exists''))\<rparr>"

definition repo0 :: milvusRepository where
  "repo0 = \<lparr>collectionBaseName = ''weknora_embeddings'', initializedCollections = {},
            calls = [], uuidCount = 0, rangeCount = 0\<rparr>"

definition vectorQuery :: RetrieveParams where
  "vectorQuery = \<lparr>Query = [], paramEmbedding = [1, 0, 0, 0], KnowledgeBaseIDs = [''b1''],
                  KnowledgeIDs = [], TagIDs = [], ExcludeKnowledgeIDs = [], ExcludeChunkIDs = [],
                  TopK = 5, Threshold = 1 / 2, paramRetrieverType = VectorRetrieverType\<rparr>"


section \<open>Shapes and literals of a condition tree\<close>

text \<open>
  Two condition trees have the same shape when they agree on everything but the
  literal values of their leaves: same fields, same operators, and, under a logical
  operator, sub-conditions of the same shape, one for one.
\<close>

fun sameShape :: "cond \<Rightarrow> cond \<Rightarrow> bool"
and sameShapes :: "cond list \<Rightarrow> cond list \<Rightarrow> bool" where
  "sameShape NilCond NilCond = True"
| "sameShape (Cond f op v) (Cond f' op' v') =
     (f = f' \<and> op = op' \<and>
      (if isLogicalOp op
       then (case v of
               VConds cs \<Rightarrow> (case v' of VConds cs' \<Rightarrow> sameShapes cs cs' | _ \<Rightarrow> True)
             | _ \<Rightarrow> True)
       else True))"
| "sameShape NilCond (Cond f' op' v') = False"
| "sameShape (Cond f op v) NilCond = False"
| "sameShapes [] [] = True"
| "sameShapes (c # cs) (c' # cs') = (sameShape c c' \<and> sameShapes cs cs')"
| "sameShapes [] (c' # cs') = False"
| "sameShapes (c # cs) [] = False"

text \<open>
  The literal values of a tree: the value of every comparison and membership leaf, and
  the two bounds of a \<open>between\<close> leaf.
\<close>

fun literals :: "cond \<Rightarrow> fvalue set"
and literalsList :: "cond list \<Rightarrow> fvalue set" where
  "literals NilCond = {}"
| "literals (Cond f op v) =
     (if isLogicalOp op then (case v of VConds cs \<Rightarrow> literalsList cs | _ \<Rightarrow> {})
      else if op = operatorBetween then {sliceIndex v 0, sliceIndex v 1}
      else {v})"
| "literalsList [] = {}"
| "literalsList (c # cs) = literals c \<union> literalsList cs"

definition priceFilter :: "fvalue \<Rightarrow> fvalue \<Rightarrow> fvalue \<Rightarrow> cond" where
  "priceFilter tag lo hi =
     Cond [] ''and'' (VConds [Cond ''meta.tag'' ''eq'' tag,
                              Cond ''price'' ''between'' (VSlice [lo, hi])])"

definition unboundFilter :: cond where
  "unboundFilter =
     Cond [] ''or'' (VConds [Cond ''owner_2'' ''eq'' (VString ''alice''),
                             Cond ''owner'' ''between'' (VSlice [VString ''a'', VString ''m''])])"

definition collidingFilter :: cond where
  "collidingFilter =
     Cond [] ''and'' (VConds [Cond ''a_2'' ''eq'' (VInt 7),
                              Cond ''a'' ''between'' (VSlice [VInt 1, VInt 5])])"


text \<open>
  The relation between the accumulated results of two runs of the loop of
  \<open>convertLogicalCondition\<close> over trees of the same shape: same expression, same
  parameter names.
\<close>

definition accRel :: "convertResult option \<Rightarrow> convertResult option \<Rightarrow> bool" where
  "accRel a a' \<longleftrightarrow> (case a of None \<Rightarrow> a' = None
      | Some r \<Rightarrow> (case a' of None \<Rightarrow> False | Some r' \<Rightarrow> exprStr r = exprStr r' \<and> dom (params r) = dom (params r')))"


section \<open>Keyword retrieval, in the words of the specification\<close>

text \<open>\<open>startsWith base name\<close>: the collection name starts with the base name.\<close>

definition startsWith :: "string \<Rightarrow> string \<Rightarrow> bool" where
  "startsWith base name \<longleftrightarrow> take (length base) name = base"

text \<open>The collections named in the search calls of a history, in the order of the calls.\<close>

fun searchedCollections :: "call list \<Rightarrow> string list" where
  "searchedCollections [] = []"
| "searchedCollections (SearchCall opt # cs) = searchCollection opt # searchedCollections cs"
| "searchedCollections (c # cs) = searchedCollections cs"

text \<open>
  The base filter of a query, and the search request that keyword retrieval sends to
  one collection: the query text against the full-text field, limit top-K, that filter.
\<close>

definition baseFilterOf :: "RetrieveParams \<Rightarrow> string \<times> (string \<rightharpoonup> fvalue)" where
  "baseFilterOf ps = (case getBaseFilterForQuery ps of Ok f \<Rightarrow> f | _ \<Rightarrow> ([], Map.empty))"

definition keywordsRequest :: "RetrieveParams \<Rightarrow> string \<Rightarrow> searchOption" where
  "keywordsRequest ps collectionName =
     keywordsSearchOption ps collectionName (fst (baseFilterOf ps)) (snd (baseFilterOf ps))"

text \<open>
  The matches one collection contributes, given the store's answer to its search: the
  decoded rows, each with score 1 and tagged as keyword match; nothing when the search
  or the decoding failed.
\<close>

definition keywordHits :: "environment \<Rightarrow> error + ResultSet list \<Rightarrow> IndexWithScore list" where
  "keywordHits env answer =
     (case answer of
        Inl err \<Rightarrow> []
      | Inr resultSet \<Rightarrow>
          (case convertResultSet env resultSet of
             Ok (sets, scores) \<Rightarrow> keywordRows sets
           | _ \<Rightarrow> []))"

text \<open>
  The matches of a sequence of search requests sent one after the other, starting from
  the history \<open>h\<close>, concatenated in the order of the requests.
\<close>

fun hitsFrom :: "environment \<Rightarrow> call list \<Rightarrow> searchOption list \<Rightarrow> IndexWithScore list" where
  "hitsFrom env h [] = []"
| "hitsFrom env h (opt # opts) =
     keywordHits env (search env h opt) @ hitsFrom env (h @ [SearchCall opt]) opts"

definition sampleRow :: "string \<Rightarrow> MilvusVectorEmbedding" where
  "sampleRow name =
     \<lparr>ID = ''r-'' @ name, Content = ''hello world'', SourceID = ''c1'', SourceType = 0,
      ChunkID = ''c1'', KnowledgeID = ''k1'', KnowledgeBaseID = ''b1'', TagID = [],
      Embedding = [1, 0, 0, 0], IsEnabled = True\<rparr>"

text \<open>
  A store with three collections, one of them named exactly as the base name; a search
  in any collection finds one row, whose identifier names the collection.
\<close>

definition baseNamedStore :: environment where
  "baseNamedStore =
     emptyStore\<lparr>listCollections := (\<lambda>h. Inr [''weknora_embeddings'', ''weknora_embeddings_4'', ''other'']),
                search := (\<lambda>h opt. Inr [rowsResultSet [sampleRow (searchCollection opt)]])\<rparr>"

definition keywordQuery :: RetrieveParams where
  "keywordQuery = \<lparr>Query = ''hello'', paramEmbedding = [], KnowledgeBaseIDs = [''b1''],
                   KnowledgeIDs = [], TagIDs = [], ExcludeKnowledgeIDs = [], ExcludeChunkIDs = [],
                   TopK = 5, Threshold = 0, paramRetrieverType = KeywordsRetrieverType\<rparr>"


section \<open>Write path, in the words of the specification\<close>

text \<open>The dimension under which a record is stored: the length of its embedding.\<close>

definition dimensionOf :: "additionalParams \<Rightarrow> IndexInfo \<Rightarrow> int" where
  "dimensionOf additional e = int (length (Embedding (toMilvusVectorEmbedding e additional)))"

text \<open>All rows handed to the store by the upsert calls of a history, in order.\<close>

fun upsertedRows :: "call list \<Rightarrow> MilvusVectorEmbedding list" where
  "upsertedRows [] = []"
| "upsertedRows (UpsertCall name rows # cs) = rows @ upsertedRows cs"
| "upsertedRows (c # cs) = upsertedRows cs"

text \<open>
  The rows of a group of records when the identifiers are drawn from position \<open>k\<close> of
  the supply on: the record at position \<open>i\<close> gets the identifier number \<open>k + i\<close>.
\<close>

definition rowsWithIDs :: "environment \<Rightarrow> additionalParams \<Rightarrow> IndexInfo list \<Rightarrow> nat \<Rightarrow> MilvusVectorEmbedding list" where
  "rowsWithIDs env additional es k =
     map (\<lambda>(e, i). (toMilvusVectorEmbedding e additional)\<lparr>ID := uuidNew env i\<rparr>)
         (zip es [k..<k + length es])"


text \<open>
  \<open>groupsOf additional records groups\<close>: the groups are the partition of the records
  by dimension. There is one group per dimension that occurs among the records and is
  not 0, and the group of a dimension holds the records of that dimension, all of them
  and in their order in the input. A record without embedding is in no group.
\<close>

definition groupsOf :: "additionalParams \<Rightarrow> IndexInfo list \<Rightarrow> (int \<times> IndexInfo list) list \<Rightarrow> bool" where
  "groupsOf ap pre gs \<longleftrightarrow>
     distinct (map fst gs)
     \<and> (\<forall>d. map_of gs d =
              (if d \<noteq> 0 \<and> d \<in> dimensionOf ap ` set pre
               then Some (filter (\<lambda>e. dimensionOf ap e = d) pre) else None))"

text \<open>
  The groups in the order in which \<open>BatchSave\<close> ranges over them.
\<close>

definition dimensionGroups ::
  "environment \<Rightarrow> additionalParams \<Rightarrow> IndexInfo list \<Rightarrow> milvusRepository \<Rightarrow> (int \<times> IndexInfo list) list" where
  "dimensionGroups env additional records m = fst (rangeMap env (groupByDimension additional records []) m)"

text \<open>
  \<open>savesAll env additional groups m m'\<close>: starting in \<open>m\<close>, every group of the list is
  saved with success, one after the other, and the repository ends in \<open>m'\<close>.
\<close>

inductive savesAll ::
  "environment \<Rightarrow> additionalParams \<Rightarrow> (int \<times> IndexInfo list) list \<Rightarrow> milvusRepository \<Rightarrow> milvusRepository \<Rightarrow> bool" where
  savesAll_Nil: "savesAll env additional [] m m"
| savesAll_Cons:
    "saveGroup env additional g m = (Ok (), m1) \<Longrightarrow> savesAll env additional gs m1 m' \<Longrightarrow>
     savesAll env additional (g # gs) m m'"


text \<open>
  Three records for the examples: the embedding map holds a vector of dimension 2 for
  the source \<open>s1\<close>, one of dimension 3 for \<open>s2\<close>, and none for \<open>s3\<close>.
\<close>

definition sampleInfo :: "string \<Rightarrow> IndexInfo" where
  "sampleInfo source =
     \<lparr>infoContent = ''text of '' @ source, infoSourceID = source, infoSourceType = 0,
      infoChunkID = source, infoKnowledgeID = ''k1'', infoKnowledgeBaseID = ''b1'',
      infoTagID = []\<rparr>"

definition sampleParams :: additionalParams where
  "sampleParams = [''embedding'' \<mapsto> EmbeddingMap [''s1'' \<mapsto> [1, 2], ''s2'' \<mapsto> [1, 2, 3]]]"


section \<open>Cross-base copy, in the words of the specification\<close>






text \<open>The request by which the copier reads one page of the source knowledge base.\<close>

definition pageRequest :: "string \<Rightarrow> string \<Rightarrow> int option \<Rightarrow> queryOption" where
  "pageRequest collectionName sourceKB offset =
     \<lparr>queryCollection = collectionName,
      queryFilter = Some (''knowledge_base_id == {knowledge_base_id_1}'',
                          [''knowledge_base_id_1'' \<mapsto> VString sourceKB]),
      queryOutputFields = [''*''], queryLimit = Some 64, queryOffset = offset\<rparr>"









section \<open>The enabled flag, in the words of the specification\<close>

text \<open>
  \<open>writesOnlyEnabled m m'\<close>: every row the repository handed to the store for upsert
  between \<open>m\<close> and \<open>m'\<close> has its enabled flag set. \<open>storeAllEnabled env\<close>: every row
  the store returns to a query is enabled, that is, the store holds no disabled record.
\<close>

definition writesOnlyEnabled :: "milvusRepository \<Rightarrow> milvusRepository \<Rightarrow> bool" where
  "writesOnlyEnabled m m' \<longleftrightarrow>
     (\<exists>new. calls m' = calls m @ new \<and> list_all IsEnabled (upsertedRows new))"


text \<open>
  A store with one collection of this repository; every query finds the same enabled row.
\<close>

definition tagStore :: environment where
  "tagStore =
     emptyStore\<lparr>listCollections := (\<lambda>h. Inr [''weknora_embeddings_4'']),
                query := (\<lambda>h opt. Inr (rowsResultSet [sampleRow ''x'']))\<rparr>"

text \<open>
  The rows the repository has read: \<open>readRows env h new\<close> are the rows decoded from the
  answers of the store to the queries among the calls \<open>new\<close>, made after the history
  \<open>h\<close>. \<open>writesBack R env m m'\<close>: every row handed to the store for upsert between
  \<open>m\<close> and \<open>m'\<close> stands in the relation \<open>R\<close> to a row read from the store in the same
  run. \<open>retagged src t\<close>: the row \<open>t\<close> is the row \<open>src\<close> with another tag, every other
  field (the identifier and the enabled flag among them) as it was read.
  \<open>sameEnabled src t\<close>: the two rows have the same enabled flag.
\<close>

definition rowsOfAnswer :: "environment \<Rightarrow> call list \<Rightarrow> call \<Rightarrow> MilvusVectorEmbeddingWithScore list" where
  "rowsOfAnswer env h c =
     (case c of
        QueryCall opt \<Rightarrow>
          (case query env h opt of
             Inl err \<Rightarrow> []
           | Inr rs \<Rightarrow> (case convertResultSet env [rs] of Ok (docs, scores) \<Rightarrow> docs | _ \<Rightarrow> []))
      | _ \<Rightarrow> [])"

fun readRows :: "environment \<Rightarrow> call list \<Rightarrow> call list \<Rightarrow> MilvusVectorEmbeddingWithScore list" where
  "readRows env h [] = []"
| "readRows env h (c # cs) = rowsOfAnswer env h c @ readRows env (h @ [c]) cs"

definition writesBack ::
  "(MilvusVectorEmbeddingWithScore \<Rightarrow> MilvusVectorEmbedding \<Rightarrow> bool) \<Rightarrow> environment \<Rightarrow>
   milvusRepository \<Rightarrow> milvusRepository \<Rightarrow> bool" where
  "writesBack R env m m' \<longleftrightarrow>
     (\<exists>new. calls m' = calls m @ new
        \<and> (\<forall>t\<in>set (upsertedRows new). \<exists>src\<in>set (readRows env (calls m) new). R src t))"






text \<open>
  The number of leaf conditions of a tree, and the trees without a \<open>between\<close> leaf.
\<close>

fun leafCount :: "cond \<Rightarrow> nat"
and leafCounts :: "cond list \<Rightarrow> nat" where
  "leafCount NilCond = 0"
| "leafCount (Cond f op v) =
     (if isLogicalOp op then (case v of VConds cs \<Rightarrow> leafCounts cs | _ \<Rightarrow> 0) else 1)"
| "leafCounts [] = 0"
| "leafCounts (c # cs) = leafCount c + leafCounts cs"

fun noBetween :: "cond \<Rightarrow> bool"
and noBetweens :: "cond list \<Rightarrow> bool" where
  "noBetween NilCond = True"
| "noBetween (Cond f op v) =
     (if isLogicalOp op then (case v of VConds cs \<Rightarrow> noBetweens cs | _ \<Rightarrow> True)
      else op \<noteq> operatorBetween)"
| "noBetweens [] = True"
| "noBetweens (c # cs) = (noBetween c \<and> noBetweens cs)"

text \<open>The parameter names that the counter values after \<open>n\<close> and up to \<open>k\<close> can give.\<close>

definition namesBetween :: "nat \<Rightarrow> nat \<Rightarrow> string set" where
  "namesBetween n k = {replaceDots f @ ''_'' @ decimal j | f j. n < j \<and> j \<le> k}"


text \<open>The parameter names held by the accumulator of the loop of \<open>convertLogicalCondition\<close>.\<close>

definition accNames :: "convertResult option \<Rightarrow> string set" where
  "accNames acc = (case acc of None \<Rightarrow> {} | Some a \<Rightarrow> dom (params a))"

text \<open>The values bound in the accumulator.\<close>

definition accValues :: "convertResult option \<Rightarrow> fvalue set" where
  "accValues acc = (case acc of None \<Rightarrow> {} | Some a \<Rightarrow> ran (params a))"


section \<open>A store that keeps what is upserted\<close>

text \<open>
  \<open>ensureCollection\<close> declares the embedding field with the type
  \<^verbatim>\<open>entity.FieldTypeFloatVector\<close> and \<open>createUpsert\<close> writes it with
  \<^verbatim>\<open>WithFloatVectorColumn\<close>. The column of such a field in a result set is a
  \<^verbatim>\<open>*column.ColumnFloatVector\<close>: it is not a \<^verbatim>\<open>*column.ColumnDoubleArray\<close>, so
  the type assertion of \<open>convertResultSet\<close> fails on it and its vectors are out of reach
  of the accessors the repository uses.
\<close>

definition floatVectorColumn :: "string \<Rightarrow> real list list \<Rightarrow> column" where
  "floatVectorColumn name vals =
     \<lparr>colName = name, colLen = length vals, GetAsString = notSupported,
      GetAsInt64 = notSupported, GetAsBool = notSupported, DoubleArrayValue = None\<rparr>"

text \<open>The rows of a query answer, in the column types of the schema of the collection.\<close>

definition schemaResultSet :: "MilvusVectorEmbedding list \<Rightarrow> ResultSet" where
  "schemaResultSet rows =
     \<lparr>Fields = [stringColumn fieldID (map ID rows),
                floatVectorColumn fieldEmbedding (map Embedding rows),
                stringColumn fieldContent (map Content rows),
                stringColumn fieldSourceID (map SourceID rows),
                int64Column fieldSourceType (map SourceType rows),
                stringColumn fieldChunkID (map ChunkID rows),
                stringColumn fieldKnowledgeID (map KnowledgeID rows),
                stringColumn fieldKnowledgeBaseID (map KnowledgeBaseID rows),
                stringColumn fieldTagID (map TagID rows),
                boolColumn fieldIsEnabled (map IsEnabled rows)],
      Scores = [],
      ResultCount = int (length rows)\<rparr>"

text \<open>
  The content of a collection after a history of calls: an upsert replaces the rows
  with the identifiers it carries and adds its rows at the end. (The examples send no
  delete.)
\<close>

fun upsertInto :: "string \<Rightarrow> MilvusVectorEmbedding list \<Rightarrow> call \<Rightarrow> MilvusVectorEmbedding list" where
  "upsertInto name rows (UpsertCall n new) =
     (if n = name then filter (\<lambda>r. ID r \<notin> set (map ID new)) rows @ new else rows)"
| "upsertInto name rows c = rows"

definition storedRows :: "call list \<Rightarrow> string \<Rightarrow> MilvusVectorEmbedding list" where
  "storedRows h name = foldl (upsertInto name) [] h"

fun createsCollection :: "string \<Rightarrow> call \<Rightarrow> bool" where
  "createsCollection name (CreateCollectionCall n d) = (n = name)"
| "createsCollection name c = False"

text \<open>
  The rows a query selects: those of the knowledge base bound to the parameter
  \<open>knowledge_base_id_1\<close> of its filter (every row when there is no such parameter),
  from the offset on and up to the limit.
\<close>

definition inKnowledgeBase :: "queryOption \<Rightarrow> MilvusVectorEmbedding \<Rightarrow> bool" where
  "inKnowledgeBase opt r =
     (case queryFilter opt of
        None \<Rightarrow> True
      | Some (expr, ps) \<Rightarrow>
          (case ps ''knowledge_base_id_1'' of
             Some (VString kb) \<Rightarrow> KnowledgeBaseID r = kb
           | _ \<Rightarrow> True))"

definition pageOf :: "queryOption \<Rightarrow> MilvusVectorEmbedding list \<Rightarrow> MilvusVectorEmbedding list" where
  "pageOf opt rows =
     (let rest = (case queryOffset opt of None \<Rightarrow> rows | Some offset \<Rightarrow> drop (nat offset) rows)
      in case queryLimit opt of None \<Rightarrow> rest | Some limit \<Rightarrow> take (nat limit) rest)"

definition keepingStore :: environment where
  "keepingStore =
     emptyStore\<lparr>hasCollection := (\<lambda>h name. Inr (list_ex (createsCollection name) h)),
                query := (\<lambda>h opt. Inr (schemaResultSet
                            (pageOf opt (filter (inKnowledgeBase opt) (storedRows h (queryCollection opt))))))\<rparr>"

text \<open>The repository after one record of knowledge base \<open>b1\<close> has been saved.\<close>

definition savedRepo :: milvusRepository where
  "savedRepo = snd (Save keepingStore (sampleInfo ''s1'') sampleParams repo0)"


text \<open>
  The placeholders of an expression: the texts between an opening brace and the next
  closing brace, in order. \<open>scan\<close> reads the expression from the left; its first
  argument is the text of the placeholder being read, if one is open.
  \<open>plainFields\<close>: no field name of a leaf contains a brace.
\<close>

fun scan :: "string option \<Rightarrow> string \<Rightarrow> string list" where
  "scan st [] = []"
| "scan None (c # cs) = (if c = CHR ''{'' then scan (Some []) cs else scan None cs)"
| "scan (Some name) (c # cs) =
     (if c = CHR ''}'' then name # scan None cs else scan (Some (name @ [c])) cs)"

definition placeholders :: "string \<Rightarrow> string list" where
  "placeholders e = scan None e"

definition plain :: "string \<Rightarrow> bool" where
  "plain s \<longleftrightarrow> CHR ''{'' \<notin> set s \<and> CHR ''}'' \<notin> set s"

fun plainFields :: "cond \<Rightarrow> bool"
and plainFieldsList :: "cond list \<Rightarrow> bool" where
  "plainFields NilCond = True"
| "plainFields (Cond f op v) =
     (if isLogicalOp op then (case v of VConds cs \<Rightarrow> plainFieldsList cs | _ \<Rightarrow> True)
      else plain f)"
| "plainFieldsList [] = True"
| "plainFieldsList (c # cs) = (plainFields c \<and> plainFieldsList cs)"

text \<open>
  An expression is closed when no placeholder is left open at its end: what follows it
  is read from the outside.
\<close>

definition closed :: "string \<Rightarrow> bool" where
  "closed e \<longleftrightarrow> (\<forall>rest. scan None (e @ rest) = scan None e @ scan None rest)"

text \<open>A result whose expression is closed and has exactly the keys of its map as placeholders.\<close>

definition keyedResult :: "convertResult \<Rightarrow> bool" where
  "keyedResult r \<longleftrightarrow> closed (exprStr r) \<and> set (placeholders (exprStr r)) = dom (params r)"


section \<open>Verified properties\<close>

subsection \<open>Delete path\<close>

text \<open>
  C9. Each of \<open>DeleteByChunkIDList\<close>, \<open>DeleteByKnowledgeIDList\<close> and
  \<open>DeleteBySourceIDList\<close>, called with an empty list of identifiers, returns success
  and leaves the repository as it was: in particular the history of calls to the store
  is unchanged, so no call was issued.
\<close>

theorem delete_empty_list_noop:
  "DeleteByChunkIDList env [] dimension knowledgeType m = (Ok (), m)
   \<and> DeleteByKnowledgeIDList env [] dimension knowledgeType m = (Ok (), m)
   \<and> DeleteBySourceIDList env [] dimension knowledgeType m = (Ok (), m)"
  by (simp add: DeleteByChunkIDList_def DeleteByKnowledgeIDList_def DeleteBySourceIDList_def)

subsection \<open>Storage estimator\<close>

lemma sint_of_nat_small: "N < 2 ^ 63 \<Longrightarrow> sint (of_nat N :: 64 word) = int N"
  by (simp add: signed_of_nat signed_take_bit_int_eq_self)

lemma calculateStorageSize_of_nat:
  "calculateStorageSize e =
     of_nat (length (Content e) + length (SourceID e) + length (ChunkID e)
             + length (KnowledgeID e) + length (KnowledgeBaseID e) + 8
             + length (Embedding e) * 4 + length (Embedding e) * (16384 * 4 + 4) + 32)"
  by (simp add: calculateStorageSize_def nlist_def metadataBytes_def Let_def)

text \<open>
  C8, as stated, fails: the tag identifier (and the record identifier) are
  variable-length string fields of the record, and the estimator does not count them.
  For the row \<open>taggedRow\<close> the estimate is 131139, one byte less than the sum over all
  string fields.
\<close>

theorem storage_size_all_strings_counterexample:
  "sint (calculateStorageSize taggedRow) = 131139 \<and> specStorageSize taggedRow = 131140"
  by (simp add: calculateStorageSize_of_nat specStorageSize_def taggedRow_def)

text \<open>
  C8, amended. The estimate is the sum of the byte lengths of the content, source
  identifier, chunk identifier, knowledge identifier and knowledge-base identifier (the
  record identifier and the tag identifier are not counted), plus 8 bytes for the source
  type, plus 4 bytes per dimension, plus the index overhead
  \<open>dimension * (nlist * 4 + 4)\<close> with \<open>nlist = 16384\<close>, plus the per-row constant 32;
  this holds whenever that sum fits the signed 64-bit result.
\<close>

theorem calculateStorageSize_amended:
  assumes "length (Content e) + length (SourceID e) + length (ChunkID e)
           + length (KnowledgeID e) + length (KnowledgeBaseID e) + 8
           + length (Embedding e) * 4 + length (Embedding e) * (16384 * 4 + 4) + 32 < 2 ^ 63"
  shows "sint (calculateStorageSize e) =
           int (length (Content e)) + int (length (SourceID e)) + int (length (ChunkID e))
           + int (length (KnowledgeID e)) + int (length (KnowledgeBaseID e))
           + 8 + 4 * int (length (Embedding e))
           + int (length (Embedding e)) * (16384 * 4 + 4) + 32"
proof -
  have "sint (calculateStorageSize e) =
          int (length (Content e) + length (SourceID e) + length (ChunkID e)
               + length (KnowledgeID e) + length (KnowledgeBaseID e) + 8
               + length (Embedding e) * 4 + length (Embedding e) * (16384 * 4 + 4) + 32)"
    unfolding calculateStorageSize_of_nat using assms by (rule sint_of_nat_small)
  then show ?thesis by simp
qed

theorem calculateStorageSize_amended_witness:
  "sint (calculateStorageSize taggedRow) = 3 + 2 + 2 + 2 + 2 + 8 + 4 * 2 + 2 * (16384 * 4 + 4) + 32"
  using calculateStorageSize_amended [of taggedRow] by (simp add: taggedRow_def)

subsection \<open>Collection manager\<close>

lemma ensureCollection_cached:
  "dimension \<in> initializedCollections m \<Longrightarrow> ensureCollection env dimension m = (Ok (), m)"
  by (simp add: ensureCollection_def Let_def)

lemma ensureCollection_create_failure:
  assumes "dimension \<notin> initializedCollections m"
    and "hasCollection env (calls m) (getCollectionName m dimension) = Inr False"
    and "createCollection env (calls m @ [HasCollectionCall (getCollectionName m dimension)])
           (getCollectionName m dimension) dimension = Some err"
  shows "ensureCollection env dimension m =
           (Err (Wrap ''failed to create collection'' err),
            m\<lparr>calls := calls m @ [HasCollectionCall (getCollectionName m dimension),
                                  CreateCollectionCall (getCollectionName m dimension) dimension]\<rparr>)"
  using assms by (simp add: ensureCollection_def client_call_defs Let_def getCollectionName_def)

lemma ensureTOSBucket_conflict_is_success:
  "ensureTOSBucket (Some (StoreError 404 notFound)) (Some (StoreError 409 conflict)) = Ok ()"
  by (simp add: ensureTOSBucket_def)

text \<open>
  C2. When the existence check answers "absent" and the creation request is refused
  because the collection already exists, \<open>ensureCollection\<close> returns the error
  "failed to create collection" around the store's answer; it issues no load and does
  not mark the dimension as initialised. The claim asks for success here, as
  \<open>ensureTOSBucket\<close> gives for its conflict answer.
\<close>

theorem ensureCollection_conflict_is_error:
  "ensureCollection conflictStore 4 repo0 =
     (Err (Wrap ''failed to create collection'' (StoreError 409 ''collection already exists'')),
      repo0\<lparr>calls := [HasCollectionCall ''weknora_embeddings_4'',
                      CreateCollectionCall ''weknora_embeddings_4'' 4]\<rparr>)"
  by (simp add: ensureCollection_def client_call_defs Let_def getCollectionName_def
      conflictStore_def emptyStore_def repo0_def itoa_def decimal.simps digit_char_def)

subsection \<open>Vector retrieval\<close>

text \<open>
  C4. When the store answers that the collection \<open>baseName_dimension\<close>, for the
  dimension of the query embedding, does not exist, \<open>VectorRetrieve\<close> returns one
  successful result wrapping an empty list, after that single call to the store.
\<close>

theorem VectorRetrieve_absent_collection:
  assumes "hasCollection env (calls m) (getCollectionName m (int (length (paramEmbedding ps)))) = Inr False"
  shows "VectorRetrieve env ps m =
           (Ok [\<lparr>Results = [], RetrieverEngineType = MilvusRetrieverEngineType,
                 RetrieverType = VectorRetrieverType, Error = None\<rparr>],
            m\<lparr>calls := calls m @ [HasCollectionCall (getCollectionName m (int (length (paramEmbedding ps))))]\<rparr>)"
  using assms
  by (simp add: VectorRetrieve_def client_call_defs Let_def buildRetrieveResult_def getCollectionName_def)

theorem VectorRetrieve_absent_collection_witness:
  "VectorRetrieve emptyStore vectorQuery repo0 =
           (Ok [\<lparr>Results = [], RetrieverEngineType = MilvusRetrieverEngineType,
                 RetrieverType = VectorRetrieverType, Error = None\<rparr>],
            repo0\<lparr>calls := [HasCollectionCall ''weknora_embeddings_4'']\<rparr>)"
  using VectorRetrieve_absent_collection [of emptyStore repo0 vectorQuery]
  by (simp add: emptyStore_def repo0_def vectorQuery_def getCollectionName_def itoa_def
      decimal.simps digit_char_def)

subsection \<open>Filter compiler\<close>

lemma cmp_shape:
  assumes "convertComparisonCondition f op v n = (Ok r, k)"
  shows "k = Suc n \<and> (\<exists>operator. comparisonOperators op = Some operator \<and>
         exprStr r = f @ '' '' @ operator @ '' {'' @ fst (convertParamName f n) @ ''}'') \<and>
         params r = [fst (convertParamName f n) \<mapsto> v]"
  using assms
  by (auto simp: convertComparisonCondition_def convertParamName_def split: if_splits option.splits)

lemma in_shape:
  assumes "convertInCondition f op v n = (Ok r, k)"
  shows "k = Suc n \<and> exprStr r = f @ '' '' @ ToLower op @ '' {'' @ fst (convertParamName f n) @ ''}'' \<and>
         params r = [fst (convertParamName f n) \<mapsto> v]"
  using assms
  by (auto simp: convertInCondition_def convertParamName_def split: if_splits option.splits)

lemma itoa_0_1: "itoa 0 = ''0''" "itoa 1 = ''1''"
  by (simp_all add: itoa_def decimal.simps digit_char_def)

lemma between_shape:
  assumes "convertBetweenCondition f v n = (Ok r, k)"
  shows "k = Suc n \<and> exprStr r = f @ '' >= {'' @ fst (convertParamName f n) @ ''_0} and '' @ f @ '' <= {'' @ fst (convertParamName f n) @ ''_1}'' \<and>
         params r = [fst (convertParamName f n) @ ''_0'' \<mapsto> sliceIndex v 0, fst (convertParamName f n) @ ''_1'' \<mapsto> sliceIndex v 1]"
  using assms
  by (auto simp: convertBetweenCondition_def convertParamName_def itoa_0_1 Let_def split: if_splits option.splits)

lemma cc_cmp: "isComparisonOp op \<Longrightarrow> convertCondition (Cond f op v) n = convertComparisonCondition f op v n"
  by simp

lemma cc_in: "\<not> isComparisonOp op \<Longrightarrow> \<not> isLogicalOp op \<Longrightarrow> isInOp op \<Longrightarrow>
   convertCondition (Cond f op v) n = convertInCondition f op v n"
  by simp

lemma cc_between: "\<not> isComparisonOp op \<Longrightarrow> \<not> isLogicalOp op \<Longrightarrow> \<not> isInOp op \<Longrightarrow> op = operatorBetween \<Longrightarrow>
   convertCondition (Cond f op v) n = convertBetweenCondition f v n"
  by simp

lemma cc_other: "\<not> isComparisonOp op \<Longrightarrow> \<not> isLogicalOp op \<Longrightarrow> \<not> isInOp op \<Longrightarrow> op \<noteq> operatorBetween \<Longrightarrow>
   convertCondition (Cond f op v) n = (Err (Errorf (''unsupported operator: '' @ op)), n)"
  by simp

lemma cc_logical_Ok:
  assumes "\<not> isComparisonOp op" "isLogicalOp op" "convertCondition (Cond f op v) n = (Ok r, k)"
  shows "\<exists>cs. v = VConds cs \<and> convertLogicalLoop op cs None n = (Ok (Some r), k)"
  using assms by (simp split: fvalue.splits prod.splits result.splits option.splits)

lemma loop_Cons_Ok:
  assumes "convertLogicalLoop op (c # cs) acc n = (Ok a, k)"
  shows "\<exists>r k1. convertCondition c n = (Ok r, k1) \<and> convertLogicalLoop op cs (joinLogical op acc r) k1 = (Ok a, k)"
  using assms by (simp split: prod.splits result.splits)


lemma joinLogical_rel:
  "accRel a a' \<Longrightarrow> exprStr r = exprStr r' \<Longrightarrow> dom (params r) = dom (params r') \<Longrightarrow>
   accRel (joinLogical op a r) (joinLogical op a' r')"
  by (auto simp: accRel_def joinLogical_def split: option.splits)

lemma shape_independent:
  "sameShape c c' \<Longrightarrow> (\<forall>n r k r' k'. convertCondition c n = (Ok r, k) \<longrightarrow> convertCondition c' n = (Ok r', k') \<longrightarrow>
      exprStr r = exprStr r' \<and> dom (params r) = dom (params r') \<and> k = k')"
  "sameShapes cs cs' \<Longrightarrow> (\<forall>op acc acc' n a k a' k'. accRel acc acc' \<longrightarrow> convertLogicalLoop op cs acc n = (Ok a, k) \<longrightarrow>
      convertLogicalLoop op cs' acc' n = (Ok a', k') \<longrightarrow> accRel a a' \<and> k = k')"
proof (induction c c' and cs cs' rule: sameShape_sameShapes.induct)
  case 1
  then show ?case by simp
next
  case (2 f op v f' op' v')
  show ?case
  proof (intro allI impI)
    fix n r k r' k'
    assume A: "convertCondition (Cond f op v) n = (Ok r, k)"
      and B: "convertCondition (Cond f' op' v') n = (Ok r', k')"
    from "2.prems" have eq: "f' = f" "op' = op" by auto
    note B' = B[unfolded eq]
    consider (cmp) "isComparisonOp op" | (log) "\<not> isComparisonOp op" "isLogicalOp op"
      | (inop) "\<not> isComparisonOp op" "\<not> isLogicalOp op" "isInOp op"
      | (btw) "\<not> isComparisonOp op" "\<not> isLogicalOp op" "\<not> isInOp op" "op = operatorBetween"
      | (other) "\<not> isComparisonOp op" "\<not> isLogicalOp op" "\<not> isInOp op" "op \<noteq> operatorBetween"
      by blast
    then show "exprStr r = exprStr r' \<and> dom (params r) = dom (params r') \<and> k = k'"
    proof cases
      case cmp
      from A B' have "convertComparisonCondition f op v n = (Ok r, k)"
        "convertComparisonCondition f op v' n = (Ok r', k')"
        by (simp_all only: cc_cmp[OF cmp])
      from cmp_shape[OF this(1)] cmp_shape[OF this(2)] show ?thesis by auto
    next
      case log
      from cc_logical_Ok[OF log A] obtain cs where v: "v = VConds cs"
        and LA: "convertLogicalLoop op cs None n = (Ok (Some r), k)" by blast
      from cc_logical_Ok[OF log B'] obtain cs' where v': "v' = VConds cs'"
        and LB: "convertLogicalLoop op cs' None n = (Ok (Some r'), k')" by blast
      from "2.prems" log v v' have sh: "sameShapes cs cs'" by simp
      have "accRel None None" by (simp add: accRel_def)
      with "2.IH"[OF log(2) v v' sh] LA LB have "accRel (Some r) (Some r') \<and> k = k'"
        by blast
      then show ?thesis by (simp add: accRel_def)
    next
      case inop
      from A B' have "convertInCondition f op v n = (Ok r, k)"
        "convertInCondition f op v' n = (Ok r', k')"
        by (simp_all only: cc_in[OF inop])
      from in_shape[OF this(1)] in_shape[OF this(2)] show ?thesis by auto
    next
      case btw
      from A B' have "convertBetweenCondition f v n = (Ok r, k)"
        "convertBetweenCondition f v' n = (Ok r', k')"
        by (simp_all only: cc_between[OF btw])
      from between_shape[OF this(1)] between_shape[OF this(2)] show ?thesis by auto
    next
      case other
      from A show ?thesis by (simp only: cc_other[OF other]) simp
    qed
  qed
next
  case (6 c cs c' cs')
  show ?case
  proof (intro allI impI)
    fix op acc acc' n a k a' k'
    assume R: "accRel acc acc'"
      and A: "convertLogicalLoop op (c # cs) acc n = (Ok a, k)"
      and B: "convertLogicalLoop op (c' # cs') acc' n = (Ok a', k')"
    from "6.prems" have s1: "sameShape c c'" and s2: "sameShapes cs cs'" by auto
    from loop_Cons_Ok[OF A] obtain r k1 where A1: "convertCondition c n = (Ok r, k1)"
      and A2: "convertLogicalLoop op cs (joinLogical op acc r) k1 = (Ok a, k)"
      by blast
    from loop_Cons_Ok[OF B] obtain r' k1' where B1: "convertCondition c' n = (Ok r', k1')"
      and B2: "convertLogicalLoop op cs' (joinLogical op acc' r') k1' = (Ok a', k')"
      by blast
    from "6.IH"(1)[OF s1] A1 B1 have E: "exprStr r = exprStr r'" "dom (params r) = dom (params r')" "k1 = k1'"
      by blast+
    from joinLogical_rel[OF R E(1) E(2)] have "accRel (joinLogical op acc r) (joinLogical op acc' r')" .
    with "6.IH"(2)[OF s2] A2 B2 E(3) show "accRel a a' \<and> k = k'" by blast
  qed
qed simp_all


lemma joinLogical_values:
  assumes "joinLogical op acc r = Some a" "params a name = Some v"
  shows "params r name = Some v \<or> (\<exists>r0. acc = Some r0 \<and> params r0 name = Some v)"
  using assms by (auto simp: joinLogical_def split: if_splits option.splits)

lemma joinLogical_None: "joinLogical op acc r = None \<Longrightarrow> acc = None"
  by (auto simp: joinLogical_def split: if_splits option.splits)

lemma params_are_literals:
  "\<forall>r k name v. convertCondition c n = (Ok r, k) \<longrightarrow> params r name = Some v \<longrightarrow> v \<in> literals c"
  "\<forall>a k name v. convertLogicalLoop op cs acc n = (Ok (Some a), k) \<longrightarrow> params a name = Some v \<longrightarrow>
      v \<in> literalsList cs \<or> (\<exists>r0. acc = Some r0 \<and> params r0 name = Some v)"
proof (induction c n and op cs acc n rule: convertCondition_convertLogicalLoop.induct)
  case (1 counter)
  then show ?case by simp
next
  case (2 f op v counter)
  show ?case
  proof (intro allI impI)
    fix r k name w
    assume A: "convertCondition (Cond f op v) counter = (Ok r, k)" and P: "params r name = Some w"
    consider (cmp) "isComparisonOp op" | (log) "\<not> isComparisonOp op" "isLogicalOp op"
      | (inop) "\<not> isComparisonOp op" "\<not> isLogicalOp op" "isInOp op"
      | (btw) "\<not> isComparisonOp op" "\<not> isLogicalOp op" "\<not> isInOp op" "op = operatorBetween"
      | (other) "\<not> isComparisonOp op" "\<not> isLogicalOp op" "\<not> isInOp op" "op \<noteq> operatorBetween"
      by blast
    then show "w \<in> literals (Cond f op v)"
    proof cases
      case cmp
      from A have "convertComparisonCondition f op v counter = (Ok r, k)"
        by (simp only: cc_cmp[OF cmp])
      from cmp_shape[OF this] P have "w = v" by (auto split: if_splits)
      moreover from cmp have "\<not> isLogicalOp op" "op \<noteq> operatorBetween"
        by (auto simp: isComparisonOp_def isLogicalOp_def operator_defs)
      ultimately show ?thesis by simp
    next
      case log
      from cc_logical_Ok[OF log A] obtain cs where v: "v = VConds cs"
        and LA: "convertLogicalLoop op cs None counter = (Ok (Some r), k)" by blast
      from "2.IH"[OF log v] LA P have "w \<in> literalsList cs" by blast
      with log v show ?thesis by simp
    next
      case inop
      from A have "convertInCondition f op v counter = (Ok r, k)"
        by (simp only: cc_in[OF inop])
      from in_shape[OF this] P have "w = v" by (auto split: if_splits)
      moreover from inop have "op \<noteq> operatorBetween"
        by (auto simp: isInOp_def operator_defs)
      ultimately show ?thesis using inop by simp
    next
      case btw
      from A have "convertBetweenCondition f v counter = (Ok r, k)"
        by (simp only: cc_between[OF btw])
      from between_shape[OF this] P have "w = sliceIndex v 0 \<or> w = sliceIndex v 1"
        by (auto split: if_splits)
      with btw show ?thesis by auto
    next
      case other
      from A show ?thesis by (simp only: cc_other[OF other]) simp
    qed
  qed
next
  case (3 op acc counter)
  then show ?case by simp
next
  case (4 op childCond conds acc counter)
  show ?case
  proof (intro allI impI)
    fix a k name w
    assume A: "convertLogicalLoop op (childCond # conds) acc counter = (Ok (Some a), k)"
      and P: "params a name = Some w"
    from loop_Cons_Ok[OF A] obtain r k1 where A1: "convertCondition childCond counter = (Ok r, k1)"
      and A2: "convertLogicalLoop op conds (joinLogical op acc r) k1 = (Ok (Some a), k)"
      by blast
    have "(convertCondition childCond counter) = (Ok r, k1)" by (rule A1)
    from "4.IH"(2)[OF A1[symmetric] refl] A2 P
    have "w \<in> literalsList conds \<or> (\<exists>r0. joinLogical op acc r = Some r0 \<and> params r0 name = Some w)"
      by blast
    then show "w \<in> literalsList (childCond # conds) \<or> (\<exists>r0. acc = Some r0 \<and> params r0 name = Some w)"
    proof
      assume "w \<in> literalsList conds" then show ?thesis by simp
    next
      assume "\<exists>r0. joinLogical op acc r = Some r0 \<and> params r0 name = Some w"
      then obtain r0 where J: "joinLogical op acc r = Some r0" "params r0 name = Some w" by blast
      from joinLogical_values[OF J] show ?thesis
      proof
        assume "params r name = Some w"
        with "4.IH"(1) A1 have "w \<in> literals childCond" by blast
        then show ?thesis by simp
      next
        assume "\<exists>r0. acc = Some r0 \<and> params r0 name = Some w"
        then show ?thesis by simp
      qed
    qed
  qed
qed

text \<open>
  For every condition tree the compiler accepts, the expression string does not depend
  on the literal values of the tree: a second accepted tree of the same shape (same
  fields, operators and nesting, any other literals) compiles to the same expression
  with the same parameter names. The values bound in the parameter map are literals of
  the tree. So a literal never becomes text of the expression.
\<close>

lemma Convert_expression_free_of_literals:
  assumes "Convert c = Ok r" and "Convert c' = Ok r'" and "sameShape c c'"
  shows "exprStr r' = exprStr r \<and> dom (params r') = dom (params r)
         \<and> (\<forall>name v. params r name = Some v \<longrightarrow> v \<in> literals c)"
proof -
  from assms(1) obtain k where A: "convertCondition c 0 = (Ok r, k)"
    by (cases "convertCondition c 0") (simp add: Convert_def)
  from assms(2) obtain k' where B: "convertCondition c' 0 = (Ok r', k')"
    by (cases "convertCondition c' 0") (simp add: Convert_def)
  from shape_independent(1)[OF assms(3)] A B
  have "exprStr r = exprStr r' \<and> dom (params r) = dom (params r') \<and> k = k'" by blast
  moreover from params_are_literals(1) A
  have "\<forall>name v. params r name = Some v \<longrightarrow> v \<in> literals c" by blast
  ultimately show ?thesis by simp
qed

lemma Convert_priceFilter:
  "Convert (priceFilter tag lo hi) =
     (if tag = VNil then Err (Errorf ''milvus filter condition is nil'')
      else Ok \<lparr>exprStr = ''(meta.tag == {meta_tag_1}) and (price >= {price_2_0} and price <= {price_2_1})'',
               params = [''meta_tag_1'' \<mapsto> tag, ''price_2_0'' \<mapsto> lo, ''price_2_1'' \<mapsto> hi]\<rparr>)"
  by (simp add: priceFilter_def Convert_def isComparisonOp_def isLogicalOp_def isInOp_def
      operator_defs convertComparisonCondition_def convertBetweenCondition_def
      comparisonOperators_def convertParamName_def replaceDots_def decimal.simps digit_char_def
      itoa_def joinLogical_def ToLower_def lowerChar_def)

lemma Convert_priceFilter_same_expression:
  "Convert (priceFilter (VString ''x'') (VInt 1) (VInt 9)) =
     Ok \<lparr>exprStr = ''(meta.tag == {meta_tag_1}) and (price >= {price_2_0} and price <= {price_2_1})'',
         params = [''meta_tag_1'' \<mapsto> VString ''x'', ''price_2_0'' \<mapsto> VInt 1, ''price_2_1'' \<mapsto> VInt 9]\<rparr>
   \<and> Convert (priceFilter (VString ''y) or (1 == 1'') (VFloat 0) (VFloat 5)) =
     Ok \<lparr>exprStr = ''(meta.tag == {meta_tag_1}) and (price >= {price_2_0} and price <= {price_2_1})'',
         params = [''meta_tag_1'' \<mapsto> VString ''y) or (1 == 1'', ''price_2_0'' \<mapsto> VFloat 0,
                   ''price_2_1'' \<mapsto> VFloat 5]\<rparr>
   \<and> sameShape (priceFilter (VString ''x'') (VInt 1) (VInt 9))
                (priceFilter (VString ''y) or (1 == 1'') (VFloat 0) (VFloat 5))
   \<and> VString ''x'' \<in> literals (priceFilter (VString ''x'') (VInt 1) (VInt 9))"
proof -
  let ?c = "priceFilter (VString ''x'') (VInt 1) (VInt 9)"
  let ?c' = "priceFilter (VString ''y) or (1 == 1'') (VFloat 0) (VFloat 5)"
  let ?r = "\<lparr>exprStr = ''(meta.tag == {meta_tag_1}) and (price >= {price_2_0} and price <= {price_2_1})'',
             params = [''meta_tag_1'' \<mapsto> VString ''x'', ''price_2_0'' \<mapsto> VInt 1, ''price_2_1'' \<mapsto> VInt 9]\<rparr>"
  have h1: "Convert ?c = Ok ?r" by (simp add: Convert_priceFilter)
  obtain r' where h2: "Convert ?c' = Ok r'"
    and r': "r' = \<lparr>exprStr = exprStr r',
                   params = [''meta_tag_1'' \<mapsto> VString ''y) or (1 == 1'', ''price_2_0'' \<mapsto> VFloat 0,
                             ''price_2_1'' \<mapsto> VFloat 5]\<rparr>"
    by (simp add: Convert_priceFilter)
  have h3: "sameShape ?c ?c'"
    by (simp add: priceFilter_def isLogicalOp_def operator_defs)
  from Convert_expression_free_of_literals[OF h1 h2 h3]
  have e: "exprStr r' = exprStr ?r"
    and l: "\<forall>name v. params ?r name = Some v \<longrightarrow> v \<in> literals ?c" by blast+
  from l[rule_format, of "''meta_tag_1''" "VString ''x''"]
  have "VString ''x'' \<in> literals ?c" by simp
  moreover from h2 r' e
  have "Convert ?c' = Ok \<lparr>exprStr = exprStr ?r,
          params = [''meta_tag_1'' \<mapsto> VString ''y) or (1 == 1'', ''price_2_0'' \<mapsto> VFloat 0,
                    ''price_2_1'' \<mapsto> VFloat 5]\<rparr>" by simp
  ultimately show ?thesis using h1 h3 by simp
qed

text \<open>
  C3. The names are not always distinct. In \<open>collidingFilter\<close> the comparison on field
  \<open>a_2\<close> is the first leaf and gets the name \<open>a_2_1\<close>; the \<open>between\<close> on field \<open>a\<close>
  is the second leaf, its base name is \<open>a_2\<close> and its two parameters are \<open>a_2_0\<close> and
  \<open>a_2_1\<close>. The merged map has two entries for three literals: the upper bound 5 has
  replaced the value 7 of the comparison, and the expression compares \<open>a_2\<close> with the
  upper bound of \<open>a\<close>.
\<close>

theorem Convert_between_name_collision:
  "Convert collidingFilter =
     Ok \<lparr>exprStr = ''(a_2 == {a_2_1}) and (a >= {a_2_0} and a <= {a_2_1})'',
         params = [''a_2_0'' \<mapsto> VInt 1, ''a_2_1'' \<mapsto> VInt 5]\<rparr>"
  by (simp add: collidingFilter_def Convert_def isComparisonOp_def isLogicalOp_def isInOp_def
      operator_defs convertComparisonCondition_def convertBetweenCondition_def
      comparisonOperators_def convertParamName_def replaceDots_def decimal.simps digit_char_def
      itoa_def joinLogical_def ToLower_def lowerChar_def fun_upd_twist)

text \<open>
  C1. Not every literal of an accepted tree is bound in the parameter map. In
  \<open>unboundFilter\<close> the equality on field \<open>owner_2\<close> is the first leaf and binds its
  literal \<open>alice\<close> under the name \<open>owner_2_1\<close>; the \<open>between\<close> on field \<open>owner\<close> is
  the second leaf, its base name is \<open>owner_2\<close>, and it binds its bounds under
  \<open>owner_2_0\<close> and \<open>owner_2_1\<close>. The merge overwrites the first binding: the returned
  map holds the two bounds only, the literal \<open>alice\<close> is bound nowhere, and the
  placeholder of the equality stands for the upper bound of the range. (The literal is
  not in the expression either: what the claim says of the expression holds.)
\<close>

theorem Convert_literal_unbound:
  "Convert unboundFilter =
     Ok \<lparr>exprStr = ''(owner_2 == {owner_2_1}) or (owner >= {owner_2_0} and owner <= {owner_2_1})'',
         params = [''owner_2_0'' \<mapsto> VString ''a'', ''owner_2_1'' \<mapsto> VString ''m'']\<rparr>
   \<and> VString ''alice'' \<in> literals unboundFilter
   \<and> VString ''alice'' \<notin> ran [''owner_2_0'' \<mapsto> VString ''a'', ''owner_2_1'' \<mapsto> VString ''m'']"
proof (intro conjI)
  show "Convert unboundFilter =
     Ok \<lparr>exprStr = ''(owner_2 == {owner_2_1}) or (owner >= {owner_2_0} and owner <= {owner_2_1})'',
         params = [''owner_2_0'' \<mapsto> VString ''a'', ''owner_2_1'' \<mapsto> VString ''m'']\<rparr>"
    by (simp add: unboundFilter_def Convert_def isComparisonOp_def isLogicalOp_def isInOp_def
      operator_defs convertComparisonCondition_def convertBetweenCondition_def
      comparisonOperators_def convertParamName_def replaceDots_def decimal.simps digit_char_def
      itoa_def joinLogical_def ToLower_def lowerChar_def fun_upd_twist)
  show "VString ''alice'' \<in> literals unboundFilter"
    by (simp add: unboundFilter_def isLogicalOp_def operator_defs)
  show "VString ''alice'' \<notin> ran [''owner_2_0'' \<mapsto> VString ''a'', ''owner_2_1'' \<mapsto> VString ''m'']"
    by (auto simp: ran_def split: if_splits)
qed

subsection \<open>Keyword retrieval\<close>

lemma inop_not_others: "isInOp op \<Longrightarrow> \<not> isComparisonOp op \<and> \<not> isLogicalOp op"
  by (auto simp: isInOp_def isComparisonOp_def isLogicalOp_def operator_defs)

lemma in_leaf_Ok:
  assumes "isInOp op" "f \<noteq> []" "ids \<noteq> []"
  shows "\<exists>r. convertCondition (Cond f op (strings ids)) n = (Ok r, Suc n) \<and> exprStr r \<noteq> []"
proof -
  from inop_not_others[OF assms(1)] assms(1)
  have "convertCondition (Cond f op (strings ids)) n = convertInCondition f op (strings ids) n"
    by (intro cc_in) auto
  with assms show ?thesis
    by (simp add: convertInCondition_def strings_def convertParamName_def)
qed

lemma joinLogical_Some: "exprStr r \<noteq> [] \<Longrightarrow> \<exists>a. joinLogical op acc r = Some a"
  by (simp add: joinLogical_def split: option.splits)

lemma in_leaves_loop_Ok:
  assumes "\<forall>c\<in>set cs. \<exists>f op ids. c = Cond f op (strings ids) \<and> f \<noteq> [] \<and> ids \<noteq> [] \<and> isInOp op"
    and "cs \<noteq> [] \<or> acc \<noteq> None"
  shows "\<exists>a k. convertLogicalLoop lop cs acc n = (Ok (Some a), k)"
  using assms
proof (induction cs arbitrary: acc n)
  case Nil
  then show ?case by auto
next
  case (Cons c cs)
  from Cons.prems(1) obtain f op ids where c: "c = Cond f op (strings ids)" "f \<noteq> []" "ids \<noteq> []" "isInOp op"
    by auto
  from in_leaf_Ok[OF c(4) c(2) c(3)] obtain r where
    r: "convertCondition c n = (Ok r, Suc n)" "exprStr r \<noteq> []" using c(1) by blast
  from joinLogical_Some[OF r(2)] obtain a0 where a0: "joinLogical lop acc r = Some a0" by blast
  from Cons.prems(1) have "\<forall>c\<in>set cs. \<exists>f op ids. c = Cond f op (strings ids) \<and> f \<noteq> [] \<and> ids \<noteq> [] \<and> isInOp op"
    by simp
  from Cons.IH[OF this, of "Some a0" "Suc n"] obtain a k where
    "convertLogicalLoop lop cs (Some a0) (Suc n) = (Ok (Some a), k)" by auto
  with r a0 show ?case by (simp del: convertCondition.simps)
qed

lemma baseFilters_in_leaves:
  "\<forall>c\<in>set (baseFilters ps). \<exists>f op ids. c = Cond f op (strings ids) \<and> f \<noteq> [] \<and> ids \<noteq> [] \<and> isInOp op"
  by (auto simp: baseFilters_def field_defs isInOp_def)

lemma getBaseFilterForQuery_Ok: "\<exists>f. getBaseFilterForQuery ps = Ok f"
proof (cases "baseFilters ps = []")
  case True
  then show ?thesis by (simp add: getBaseFilterForQuery_def)
next
  case False
  from in_leaves_loop_Ok[OF baseFilters_in_leaves, of ps None operatorAnd 0] False
  obtain a k where L: "convertLogicalLoop operatorAnd (baseFilters ps) None 0 = (Ok (Some a), k)"
    by auto
  have "\<not> isComparisonOp operatorAnd" "isLogicalOp operatorAnd"
    by (simp_all add: isComparisonOp_def isLogicalOp_def operator_defs)
  with L have "Convert (Cond [] operatorAnd (VConds (baseFilters ps))) = Ok a"
    by (simp add: Convert_def)
  with False show ?thesis by (simp add: getBaseFilterForQuery_def Let_def)
qed


lemma hasBasePrefix_calls [simp]: "hasBasePrefix (m\<lparr>calls := x\<rparr>) = hasBasePrefix m"
  by (simp add: hasBasePrefix_def fun_eq_iff)

lemma hasBasePrefix_iff:
  "hasBasePrefix m n \<longleftrightarrow> length (collectionBaseName m) < length n \<and> startsWith (collectionBaseName m) n"
  by (auto simp: hasBasePrefix_def startsWith_def)

lemma getBaseFilterForQuery_baseFilterOf:
  "getBaseFilterForQuery ps = Ok (fst (baseFilterOf ps), snd (baseFilterOf ps))"
  using getBaseFilterForQuery_Ok[of ps] by (auto simp: baseFilterOf_def)

lemma keywordsLoop_char:
  assumes NP: "\<forall>h opt rs p. search env h opt = Inr rs \<longrightarrow> convertResultSet env rs \<noteq> Panic p"
  shows "keywordsLoop env ps names acc m =
           (Ok (acc @ hitsFrom env (calls m) (map (keywordsRequest ps) (filter (hasBasePrefix m) names))),
            m\<lparr>calls := calls m @ map SearchCall (map (keywordsRequest ps) (filter (hasBasePrefix m) names))\<rparr>)"
proof (induction names arbitrary: acc m)
  case Nil
  then show ?case by simp
next
  case (Cons n names)
  show ?case
  proof (cases "hasBasePrefix m n")
    case False
    with Cons.IH[of acc m] show ?thesis by simp
  next
    case True
    let ?opt = "keywordsRequest ps n"
    let ?m1 = "m\<lparr>calls := calls m @ [SearchCall ?opt]\<rparr>"
    have step: "keywordsLoop env ps (n # names) acc m =
                  keywordsLoop env ps names (acc @ keywordHits env (search env (calls m) ?opt)) ?m1"
    proof (cases "search env (calls m) ?opt")
      case (Inl err)
      with True show ?thesis
        by (simp add: getBaseFilterForQuery_baseFilterOf keywordsRequest_def clientSearch_def keywordHits_def case_prod_beta)
    next
      case (Inr rs)
      show ?thesis
      proof (cases "convertResultSet env rs")
        case (Panic p)
        with NP Inr show ?thesis by blast
      next
        case (Err e)
        with True Inr show ?thesis
          by (simp add: getBaseFilterForQuery_baseFilterOf keywordsRequest_def clientSearch_def keywordHits_def case_prod_beta)
      next
        case (Ok x)
        with True Inr show ?thesis
          by (cases x) (simp add: getBaseFilterForQuery_baseFilterOf keywordsRequest_def clientSearch_def keywordHits_def case_prod_beta)
      qed
    qed
    show ?thesis
      unfolding step using True
      by (simp add: Cons.IH[of _ ?m1])
  qed
qed

lemma hitsFrom_keyword:
  "r \<in> set (hitsFrom env h opts) \<Longrightarrow> resScore r = 1 \<and> resMatchType r = MatchTypeKeywords"
proof (induction opts arbitrary: h)
  case Nil
  then show ?case by simp
next
  case (Cons opt opts)
  then show ?case
    by (auto simp: keywordHits_def keywordRows_def fromMilvusVectorEmbedding_def
        split: sum.splits result.splits)
qed

lemma KeywordsRetrieve_run:
  assumes "listCollections env (calls m) = Inr names"
    and "0 \<le> TopK ps"
    and "\<forall>h opt rs p. search env h opt = Inr rs \<longrightarrow> convertResultSet env rs \<noteq> Panic p"
  shows "KeywordsRetrieve env ps m =
           (Ok [\<lparr>Results = take (nat (TopK ps))
                    (hitsFrom env (calls m @ [ListCollectionsCall])
                       (map (keywordsRequest ps) (filter (hasBasePrefix m) names))),
                 RetrieverEngineType = MilvusRetrieverEngineType,
                 RetrieverType = KeywordsRetrieverType, Error = None\<rparr>],
            m\<lparr>calls := calls m @ ListCollectionsCall #
                          map SearchCall (map (keywordsRequest ps) (filter (hasBasePrefix m) names))\<rparr>)"
proof -
  let ?m1 = "m\<lparr>calls := calls m @ [ListCollectionsCall]\<rparr>"
  let ?hits = "hitsFrom env (calls m @ [ListCollectionsCall])
                 (map (keywordsRequest ps) (filter (hasBasePrefix m) names))"
  have L: "keywordsLoop env ps names [] ?m1 =
             (Ok ?hits, ?m1\<lparr>calls := calls ?m1 @ map SearchCall (map (keywordsRequest ps) (filter (hasBasePrefix m) names))\<rparr>)"
    using keywordsLoop_char[OF assms(3), of ps names "[]" ?m1] by simp
  show ?thesis
    using assms(1,2) by (simp add: KeywordsRetrieve_def clientListCollections_def L buildRetrieveResult_def)
qed

text \<open>
  C5, amended. \<open>KeywordsRetrieve\<close> searches, in the order of enumeration, every
  collection whose name is strictly longer than the configured base name and starts with
  it (a collection named exactly as the base name is skipped, like every other
  collection), each with the same request: the query text against the full-text field,
  limit top-K and the base filter of the query. Every match has score 1 and is tagged
  as keyword match; the matches are concatenated in the order of the searches (a
  collection whose search or decoding fails contributes nothing) and the list is cut to
  its first top-K entries. This holds when the listing succeeds, top-K is not negative
  and no decoding panics.
\<close>

theorem KeywordsRetrieve_amended:
  assumes "listCollections env (calls m) = Inr names"
    and "0 \<le> TopK ps"
    and "\<forall>h opt rs p. search env h opt = Inr rs \<longrightarrow> convertResultSet env rs \<noteq> Panic p"
  shows "KeywordsRetrieve env ps m =
           (Ok [\<lparr>Results = take (nat (TopK ps))
                    (hitsFrom env (calls m @ [ListCollectionsCall])
                       (map (keywordsRequest ps) (filter (hasBasePrefix m) names))),
                 RetrieverEngineType = MilvusRetrieverEngineType,
                 RetrieverType = KeywordsRetrieverType, Error = None\<rparr>],
            m\<lparr>calls := calls m @ ListCollectionsCall #
                          map SearchCall (map (keywordsRequest ps) (filter (hasBasePrefix m) names))\<rparr>)
         \<and> (\<forall>n. hasBasePrefix m n \<longleftrightarrow>
                  length (collectionBaseName m) < length n \<and> startsWith (collectionBaseName m) n)
         \<and> (\<forall>r h opts. r \<in> set (hitsFrom env h opts) \<longrightarrow> resScore r = 1 \<and> resMatchType r = MatchTypeKeywords)"
  using KeywordsRetrieve_run[OF assms] hasBasePrefix_iff hitsFrom_keyword by blast

lemma convertResultSet_rows1:
  "convertResultSet env [rowsResultSet [r]] =
     Ok ([MilvusVectorEmbedding.extend (r\<lparr>Embedding := map (float32 env) (Embedding r)\<rparr>) \<lparr>Score = 0\<rparr>], [1 / 2])"
  by (cases r) (simp add: convertResultSet_def rowsResultSet_def allFields_def GetColumn_def decodeField_def
      field_defs stringColumn_def int64Column_def boolColumn_def doubleArrayColumn_def
      columnAt_def notSupported_def zeroRow_def MilvusVectorEmbedding.defs)

lemma baseFilterOf_keywordQuery:
  "baseFilterOf keywordQuery =
     (''knowledge_base_id in {knowledge_base_id_1}'',
      [''knowledge_base_id_1'' \<mapsto> VSlice [VString ''b1'']])"
  by (simp add: baseFilterOf_def getBaseFilterForQuery_def baseFilters_def keywordQuery_def
      Convert_def isComparisonOp_def isLogicalOp_def isInOp_def operator_defs field_defs
      convertInCondition_def strings_def convertParamName_def replaceDots_def decimal.simps
      digit_char_def joinLogical_def ToLower_def lowerChar_def)


lemma baseNamedStore_facts:
  "listCollections baseNamedStore h = Inr [''weknora_embeddings'', ''weknora_embeddings_4'', ''other'']"
  "search baseNamedStore h opt = Inr [rowsResultSet [sampleRow (searchCollection opt)]]"
  "float32 baseNamedStore = (\<lambda>x. x)"
  by (simp_all add: baseNamedStore_def emptyStore_def)

lemma baseNamedStore_no_panic:
  "\<forall>h opt rs p. search baseNamedStore h opt = Inr rs \<longrightarrow> convertResultSet baseNamedStore rs \<noteq> Panic p"
  by (simp add: baseNamedStore_facts convertResultSet_rows1)

lemma keywordQuery_matching:
  "filter (hasBasePrefix repo0) [''weknora_embeddings'', ''weknora_embeddings_4'', ''other'']
     = [''weknora_embeddings_4'']"
  by (simp add: hasBasePrefix_def repo0_def)

theorem KeywordsRetrieve_amended_witness:
  "KeywordsRetrieve baseNamedStore keywordQuery repo0 =
     (Ok [\<lparr>Results = [\<lparr>resID = ''r-weknora_embeddings_4'', resSourceID = ''c1'', resSourceType = 0,
                        resChunkID = ''c1'', resKnowledgeID = ''k1'', resKnowledgeBaseID = ''b1'',
                        resTagID = [], resContent = ''hello world'', resScore = 1,
                        resMatchType = MatchTypeKeywords\<rparr>],
           RetrieverEngineType = MilvusRetrieverEngineType,
           RetrieverType = KeywordsRetrieverType, Error = None\<rparr>],
      repo0\<lparr>calls := [ListCollectionsCall,
                      SearchCall \<lparr>searchCollection = ''weknora_embeddings_4'', searchLimit = 5,
                                  searchVectors = [Text ''hello''], searchANNSField = ''content_sparse'',
                                  searchRadius = None,
                                  searchFilter = Some (''knowledge_base_id in {knowledge_base_id_1}'',
                                                       [''knowledge_base_id_1'' \<mapsto> VSlice [VString ''b1'']]),
                                  searchOutputFields = [''*'']\<rparr>]\<rparr>)"
proof -
  have h1: "listCollections baseNamedStore (calls repo0) =
              Inr [''weknora_embeddings'', ''weknora_embeddings_4'', ''other'']"
    by (simp add: baseNamedStore_facts)
  have h2: "0 \<le> TopK keywordQuery" by (simp add: keywordQuery_def)
  from KeywordsRetrieve_amended[OF h1 h2 baseNamedStore_no_panic, unfolded keywordQuery_matching]
  show ?thesis
    by (simp add: keywordsRequest_def baseFilterOf_keywordQuery
        keywordsSearchOption_def withFilter_def keywordHits_def baseNamedStore_facts
        convertResultSet_rows1 keywordRows_def fromMilvusVectorEmbedding_def sampleRow_def
        MilvusVectorEmbedding.defs field_defs)
      (simp add: keywordQuery_def repo0_def)
qed

text \<open>
  C5, as stated, fails: the store lists a collection whose name is the base name itself.
  That name starts with the base name, and the collection is not searched.
\<close>

theorem KeywordsRetrieve_base_named_collection_counterexample:
  "listCollections baseNamedStore (calls repo0) =
     Inr [''weknora_embeddings'', ''weknora_embeddings_4'', ''other'']
   \<and> filter (startsWith (collectionBaseName repo0)) [''weknora_embeddings'', ''weknora_embeddings_4'', ''other'']
       = [''weknora_embeddings'', ''weknora_embeddings_4'']
   \<and> searchedCollections (calls (snd (KeywordsRetrieve baseNamedStore keywordQuery repo0)))
       = [''weknora_embeddings_4'']"
proof -
  have h1: "listCollections baseNamedStore (calls repo0) =
              Inr [''weknora_embeddings'', ''weknora_embeddings_4'', ''other'']"
    by (simp add: baseNamedStore_facts)
  have h2: "0 \<le> TopK keywordQuery" by (simp add: keywordQuery_def)
  have "searchedCollections (calls (snd (KeywordsRetrieve baseNamedStore keywordQuery repo0)))
       = [''weknora_embeddings_4'']"
    by (simp add: KeywordsRetrieve_run[OF h1 h2 baseNamedStore_no_panic, unfolded keywordQuery_matching]
        keywordsRequest_def keywordsSearchOption_def) (simp add: repo0_def)
  moreover have "filter (startsWith (collectionBaseName repo0)) [''weknora_embeddings'', ''weknora_embeddings_4'', ''other'']
       = [''weknora_embeddings'', ''weknora_embeddings_4'']"
    by (simp add: startsWith_def repo0_def)
  ultimately show ?thesis using h1 by simp
qed

subsection \<open>Write path\<close>

lemma appendToGroup_keys:
  "map fst (appendToGroup d e gs) = (if d \<in> set (map fst gs) then map fst gs else map fst gs @ [d])"
  by (induction gs) (auto split: if_splits)

lemma appendToGroup_map_of:
  "map_of (appendToGroup d e gs) =
     (map_of gs)(d \<mapsto> (case map_of gs d of None \<Rightarrow> [e] | Some es \<Rightarrow> es @ [e]))"
  by (induction gs) (auto simp: fun_eq_iff)

lemma groupsOf_step_skip:
  assumes "groupsOf ap pre gs" "dimensionOf ap e = 0"
  shows "groupsOf ap (pre @ [e]) gs"
  using assms by (auto simp: groupsOf_def)

lemma filter_dim_empty: "d \<notin> dimensionOf ap ` set pre \<Longrightarrow> filter (\<lambda>e. dimensionOf ap e = d) pre = []"
  by (auto simp: filter_empty_conv)

lemma groupsOf_step_add:
  assumes G: "groupsOf ap pre gs" and D: "dimensionOf ap e \<noteq> 0"
  shows "groupsOf ap (pre @ [e]) (appendToGroup (dimensionOf ap e) e gs)"
proof -
  from G have dist: "distinct (map fst gs)"
    and M: "\<And>d. map_of gs d =
              (if d \<noteq> 0 \<and> d \<in> dimensionOf ap ` set pre
               then Some (filter (\<lambda>e. dimensionOf ap e = d) pre) else None)"
    by (simp_all add: groupsOf_def)
  have keys: "set (map fst gs) = {d. d \<noteq> 0 \<and> d \<in> dimensionOf ap ` set pre}"
  proof -
    have "set (map fst gs) = dom (map_of gs)" by (simp add: dom_map_of_conv_image_fst)
    also have "\<dots> = {d. d \<noteq> 0 \<and> d \<in> dimensionOf ap ` set pre}"
      by (auto simp: dom_def M)
    finally show ?thesis .
  qed
  have "distinct (map fst (appendToGroup (dimensionOf ap e) e gs))"
    unfolding appendToGroup_keys using dist by auto
  moreover have "\<forall>d. map_of (appendToGroup (dimensionOf ap e) e gs) d =
              (if d \<noteq> 0 \<and> d \<in> dimensionOf ap ` set (pre @ [e])
               then Some (filter (\<lambda>x. dimensionOf ap x = d) (pre @ [e])) else None)"
    unfolding appendToGroup_map_of using D
    by (auto simp: M filter_dim_empty)
  ultimately show ?thesis by (simp add: groupsOf_def)
qed

lemma groupByDimension_groupsOf:
  "groupsOf ap pre gs \<Longrightarrow> groupsOf ap (pre @ rest) (groupByDimension ap rest gs)"
proof (induction rest arbitrary: pre gs)
  case Nil
  then show ?case by simp
next
  case (Cons e rest)
  show ?case
  proof (cases "dimensionOf ap e = 0")
    case True
    from Cons.IH[OF groupsOf_step_skip[OF Cons.prems True]] True
    show ?thesis by (simp add: dimensionOf_def Let_def)
  next
    case False
    from Cons.IH[OF groupsOf_step_add[OF Cons.prems False]] False
    show ?thesis by (simp add: dimensionOf_def Let_def)
  qed
qed

lemma groupByDimension_partition: "groupsOf ap list (groupByDimension ap list [])"
  using groupByDimension_groupsOf[of ap "[]" "[]" list] by (simp add: groupsOf_def)

lemma ensureCollection_frame:
  assumes "ensureCollection env d m = (r, m')"
  shows "\<exists>new. calls m' = calls m @ new \<and> upsertedRows new = [] \<and> uuidCount m' = uuidCount m
           \<and> collectionBaseName m' = collectionBaseName m \<and> rangeCount m' = rangeCount m"
  using assms
  by (auto simp: ensureCollection_def Let_def client_call_defs
      split: if_splits sum.splits option.splits prod.splits)

lemma rowsWithIDs_Nil [simp]: "rowsWithIDs env ap [] k = []"
  by (simp add: rowsWithIDs_def)

lemma rowsWithIDs_Cons [simp]:
  "rowsWithIDs env ap (e # es) k =
     (toMilvusVectorEmbedding e ap)\<lparr>ID := uuidNew env k\<rparr> # rowsWithIDs env ap es (Suc k)"
proof -
  have "[k..<k + length (e # es)] = k # [Suc k..<Suc k + length es]"
    by (subst upt_rec) simp
  then show ?thesis by (simp add: rowsWithIDs_def del: upt_Suc)
qed

lemma assignIDs_eq:
  "assignIDs env ap es m = (rowsWithIDs env ap es (uuidCount m), m\<lparr>uuidCount := uuidCount m + length es\<rparr>)"
  by (induction es arbitrary: m) (simp_all add: newUUID_def)

lemma saveGroup_eq:
  "saveGroup env ap g m =
     (case ensureCollection env (fst g) m of
        (Ok u, m1) \<Rightarrow>
          ((case upsert env (calls m1) (getCollectionName m1 (fst g)) (rowsWithIDs env ap (snd g) (uuidCount m1)) of
              None \<Rightarrow> Ok ()
            | Some err \<Rightarrow> Err (Wrap (''failed to batch save (dimension '' @ itoa (fst g) @ '')'') err)),
           m1\<lparr>uuidCount := uuidCount m1 + length (snd g),
              calls := calls m1 @ [UpsertCall (getCollectionName m1 (fst g))
                                              (rowsWithIDs env ap (snd g) (uuidCount m1))]\<rparr>)
      | (Err err, m1) \<Rightarrow> (Err err, m1)
      | (Panic p, m1) \<Rightarrow> (Panic p, m1))"
  by (simp add: saveGroup_def assignIDs_eq clientUpsert_def getCollectionName_def
      split: prod.splits result.splits option.splits)

lemma saveGroups_Ok_iff:
  "saveGroups env ap gs m = (Ok (), m') \<longleftrightarrow> savesAll env ap gs m m'"
proof (induction gs arbitrary: m)
  case Nil
  show ?case by (auto intro: savesAll.intros elim: savesAll.cases)
next
  case (Cons g gs)
  show ?case
  proof
    assume A: "saveGroups env ap (g # gs) m = (Ok (), m')"
    then obtain m1 where "saveGroup env ap g m = (Ok (), m1)" "saveGroups env ap gs m1 = (Ok (), m')"
      by (auto split: prod.splits result.splits)
    with Cons.IH show "savesAll env ap (g # gs) m m'" by (auto intro: savesAll.intros)
  next
    assume "savesAll env ap (g # gs) m m'"
    then obtain m1 where "saveGroup env ap g m = (Ok (), m1)" "savesAll env ap gs m1 m'"
      by (auto elim: savesAll.cases)
    with Cons.IH show "saveGroups env ap (g # gs) m = (Ok (), m')" by simp
  qed
qed

lemma saveGroups_failure_iff:
  assumes "r \<noteq> Ok ()"
  shows "saveGroups env ap gs m = (r, m') \<longleftrightarrow>
           (\<exists>pre g post m1. gs = pre @ g # post \<and> savesAll env ap pre m m1 \<and> saveGroup env ap g m1 = (r, m'))"
proof (induction gs arbitrary: m)
  case Nil
  from assms show ?case by auto
next
  case (Cons g gs)
  show ?case
  proof (cases "saveGroup env ap g m")
    case (Pair r1 m1)
    show ?thesis
    proof (cases "r1 = Ok ()")
      case True
      with Pair have step: "saveGroups env ap (g # gs) m = saveGroups env ap gs m1" by simp
      show ?thesis
      proof
        assume "saveGroups env ap (g # gs) m = (r, m')"
        with step Cons.IH[of m1] obtain pre g' post m2 where
          P: "gs = pre @ g' # post" "savesAll env ap pre m1 m2" "saveGroup env ap g' m2 = (r, m')"
          by auto
        from Pair True P(2) have "savesAll env ap (g # pre) m m2" by (auto intro: savesAll.intros)
        with P(1,3) have "g # gs = (g # pre) @ g' # post \<and> savesAll env ap (g # pre) m m2
            \<and> saveGroup env ap g' m2 = (r, m')" by simp
        then show "\<exists>pre g' post m1. g # gs = pre @ g' # post \<and> savesAll env ap pre m m1 \<and> saveGroup env ap g' m1 = (r, m')"
          by blast
      next
        assume "\<exists>pre g' post m1. g # gs = pre @ g' # post \<and> savesAll env ap pre m m1 \<and> saveGroup env ap g' m1 = (r, m')"
        then obtain pre g' post m2 where
          P: "g # gs = pre @ g' # post" "savesAll env ap pre m m2" "saveGroup env ap g' m2 = (r, m')"
          by blast
        show "saveGroups env ap (g # gs) m = (r, m')"
        proof (cases pre)
          case Nil
          with P have "g' = g" "m2 = m" by (auto elim: savesAll.cases)
          with P(3) Pair True assms show ?thesis by simp
        next
          case (Cons a pre')
          with P(1) have e: "a = g" "gs = pre' @ g' # post" by auto
          from P(2) Cons e(1) Pair have "savesAll env ap pre' m1 m2"
            by (auto elim: savesAll.cases)
          with e(2) P(3) Cons.IH[of m1] have "saveGroups env ap gs m1 = (r, m')" by blast
          with step show ?thesis by simp
        qed
      qed
    next
      case False
      with Pair have step: "saveGroups env ap (g # gs) m = (r1, m1)"
        by (cases r1) auto
      show ?thesis
      proof
        assume "saveGroups env ap (g # gs) m = (r, m')"
        with step Pair have "g # gs = [] @ g # gs \<and> savesAll env ap [] m m \<and> saveGroup env ap g m = (r, m')"
          by (auto intro: savesAll.intros)
        then show "\<exists>pre g' post m1. g # gs = pre @ g' # post \<and> savesAll env ap pre m m1 \<and> saveGroup env ap g' m1 = (r, m')"
          by blast
      next
        assume "\<exists>pre g' post m1. g # gs = pre @ g' # post \<and> savesAll env ap pre m m1 \<and> saveGroup env ap g' m1 = (r, m')"
        then obtain pre g' post m2 where
          P: "g # gs = pre @ g' # post" "savesAll env ap pre m m2" "saveGroup env ap g' m2 = (r, m')"
          by blast
        show "saveGroups env ap (g # gs) m = (r, m')"
        proof (cases pre)
          case Nil
          with P have "g' = g" "m2 = m" by (auto elim: savesAll.cases)
          with P(3) Pair step show ?thesis by simp
        next
          case (Cons a pre')
          with P(1) have "a = g" by auto
          with P(2) Cons Pair False show ?thesis by (auto elim: savesAll.cases)
        qed
      qed
    qed
  qed
qed


lemma upsertedRows_append [simp]: "upsertedRows (xs @ ys) = upsertedRows xs @ upsertedRows ys"
  by (induction xs rule: upsertedRows.induct) simp_all

lemma rowsWithIDs_IDs: "map ID (rowsWithIDs env ap es k) = map (uuidNew env) [k..<k + length es]"
proof (induction es arbitrary: k)
  case Nil
  then show ?case by simp
next
  case (Cons e es)
  have "[k..<k + length (e # es)] = k # [Suc k..<Suc k + length es]"
    by (subst upt_rec) simp
  with Cons.IH[of "Suc k"] show ?case by (simp del: upt_Suc)
qed

lemma toMilvusVectorEmbedding_enabled: "IsEnabled (toMilvusVectorEmbedding e ap) = True"
  by (simp add: toMilvusVectorEmbedding_def Let_def split: option.splits paramValue.splits)

lemma rowsWithIDs_enabled: "row \<in> set (rowsWithIDs env ap es k) \<Longrightarrow> IsEnabled row"
  by (induction es arbitrary: k) (auto simp: toMilvusVectorEmbedding_enabled)

lemma rowsWithIDs_rows:
  "map (\<lambda>row. row\<lparr>ID := []\<rparr>) (rowsWithIDs env ap es k) = map (\<lambda>e. toMilvusVectorEmbedding e ap) es"
proof (induction es arbitrary: k)
  case Nil
  then show ?case by simp
next
  case (Cons e es)
  have "(toMilvusVectorEmbedding e ap)\<lparr>ID := []\<rparr> = toMilvusVectorEmbedding e ap"
    by (simp add: toMilvusVectorEmbedding_def Let_def split: option.splits paramValue.splits)
  with Cons.IH show ?case by simp
qed

lemma saveGroup_run:
  assumes "saveGroup env ap g m = (r, m')"
  shows "\<exists>new. calls m' = calls m @ new
           \<and> map ID (upsertedRows new) = map (uuidNew env) [uuidCount m..<uuidCount m']
           \<and> uuidCount m \<le> uuidCount m'
           \<and> (\<forall>row \<in> set (upsertedRows new). IsEnabled row)"
proof (cases "ensureCollection env (fst g) m")
  case (Pair r1 m1)
  from ensureCollection_frame[OF Pair] obtain new1 where
    F: "calls m1 = calls m @ new1" "upsertedRows new1 = []" "uuidCount m1 = uuidCount m" by blast
  show ?thesis
  proof (cases r1)
    case (Ok u)
    with assms Pair have m': "m' = m1\<lparr>uuidCount := uuidCount m1 + length (snd g),
              calls := calls m1 @ [UpsertCall (getCollectionName m1 (fst g))
                                              (rowsWithIDs env ap (snd g) (uuidCount m1))]\<rparr>"
      by (auto simp: saveGroup_eq)
    let ?new = "new1 @ [UpsertCall (getCollectionName m1 (fst g)) (rowsWithIDs env ap (snd g) (uuidCount m1))]"
    from m' F have "calls m' = calls m @ ?new" by simp
    moreover from m' F have "map ID (upsertedRows ?new) = map (uuidNew env) [uuidCount m..<uuidCount m']"
      by (simp add: rowsWithIDs_IDs)
    moreover from m' F have "uuidCount m \<le> uuidCount m'" by simp
    moreover from F have "\<forall>row \<in> set (upsertedRows ?new). IsEnabled row"
      by (auto dest: rowsWithIDs_enabled)
    ultimately show ?thesis by blast
  next
    case (Err e)
    with assms Pair have "m' = m1" by (simp add: saveGroup_eq)
    with F show ?thesis by auto
  next
    case (Panic p)
    with assms Pair have "m' = m1" by (simp add: saveGroup_eq)
    with F show ?thesis by auto
  qed
qed

lemma saveGroups_run:
  assumes "saveGroups env ap gs m = (r, m')"
  shows "\<exists>new. calls m' = calls m @ new
           \<and> map ID (upsertedRows new) = map (uuidNew env) [uuidCount m..<uuidCount m']
           \<and> uuidCount m \<le> uuidCount m'
           \<and> (\<forall>row \<in> set (upsertedRows new). IsEnabled row)"
  using assms
proof (induction gs arbitrary: m)
  case Nil
  then show ?case by auto
next
  case (Cons g gs)
  obtain r1 m1 where S: "saveGroup env ap g m = (r1, m1)" by (cases "saveGroup env ap g m")
  from saveGroup_run[OF S] obtain new1 where
    N1: "calls m1 = calls m @ new1"
      "map ID (upsertedRows new1) = map (uuidNew env) [uuidCount m..<uuidCount m1]"
      "uuidCount m \<le> uuidCount m1" "\<forall>row \<in> set (upsertedRows new1). IsEnabled row" by blast
  show ?case
  proof (cases "r1 = Ok ()")
    case True
    with S Cons.prems have "saveGroups env ap gs m1 = (r, m')" by simp
    from Cons.IH[OF this] obtain new2 where
      N2: "calls m' = calls m1 @ new2"
        "map ID (upsertedRows new2) = map (uuidNew env) [uuidCount m1..<uuidCount m']"
        "uuidCount m1 \<le> uuidCount m'" "\<forall>row \<in> set (upsertedRows new2). IsEnabled row" by blast
    have "[uuidCount m..<uuidCount m'] = [uuidCount m..<uuidCount m1] @ [uuidCount m1..<uuidCount m']"
      using N1(3) N2(3) by (metis le_Suc_ex upt_add_eq_append)
    with N1 N2 have "calls m' = calls m @ (new1 @ new2)
           \<and> map ID (upsertedRows (new1 @ new2)) = map (uuidNew env) [uuidCount m..<uuidCount m']
           \<and> uuidCount m \<le> uuidCount m'
           \<and> (\<forall>row \<in> set (upsertedRows (new1 @ new2)). IsEnabled row)" by auto
    then show ?thesis by blast
  next
    case False
    with S Cons.prems have "m' = m1" by (cases r1) auto
    with N1 show ?thesis by blast
  qed
qed

lemma range_permutation:
  assumes "distinct p" "set p = {0..<length xs}"
  shows "set (map (\<lambda>i. xs ! i) p) = set xs"
    and "distinct (map fst xs) \<Longrightarrow> distinct (map fst (map (\<lambda>i. xs ! i) p))"
proof -
  have "set (map (\<lambda>i. xs ! i) p) = (!) xs ` {0..<length xs}"
    using assms(2) by simp
  also have "\<dots> = set xs"
    using nth_image[of "length xs" xs] by simp
  finally show "set (map (\<lambda>i. xs ! i) p) = set xs" .
  assume d: "distinct (map fst xs)"
  have "inj_on (\<lambda>i. fst (xs ! i)) (set p)"
  proof (rule inj_onI)
    fix i j assume "i \<in> set p" "j \<in> set p" "fst (xs ! i) = fst (xs ! j)"
    with assms(2) have "i < length (map fst xs)" "j < length (map fst xs)"
      "map fst xs ! i = map fst xs ! j" by auto
    with d show "i = j" using nth_eq_iff_index_eq by blast
  qed
  with assms(1) show "distinct (map fst (map (\<lambda>i. xs ! i) p))"
    by (simp add: distinct_map comp_def)
qed

lemma groupsOf_permutation:
  assumes "groupsOf ap list gs" "distinct p" "set p = {0..<length gs}"
  shows "groupsOf ap list (map (\<lambda>i. gs ! i) p)"
proof -
  from assms(1) have d: "distinct (map fst gs)" by (simp add: groupsOf_def)
  from range_permutation[OF assms(2,3)] d
  have s: "set (map (\<lambda>i. gs ! i) p) = set gs" and d': "distinct (map fst (map (\<lambda>i. gs ! i) p))"
    by blast+
  from d d' s have "map_of (map (\<lambda>i. gs ! i) p) = map_of gs"
    by (simp add: map_of_inject_set)
  with assms(1) d' show ?thesis by (simp add: groupsOf_def)
qed


lemma BatchSave_eq:
  "BatchSave env list ap m =
     (if groupByDimension ap list [] = [] then (Ok (), m)
      else saveGroups env ap (dimensionGroups env ap list m) (m\<lparr>rangeCount := rangeCount m + 1\<rparr>))"
  by (cases list) (simp_all add: BatchSave_def Let_def rangeMap_def dimensionGroups_def)

lemma dimensionGroups_Nil_iff:
  assumes "set (rangePerm env (rangeCount m) (length (groupByDimension ap list []))) =
             {0..<length (groupByDimension ap list [])}"
  shows "dimensionGroups env ap list m = [] \<longleftrightarrow> groupByDimension ap list [] = []"
proof
  assume "dimensionGroups env ap list m = []"
  then have "rangePerm env (rangeCount m) (length (groupByDimension ap list [])) = []"
    by (simp add: dimensionGroups_def rangeMap_def)
  with assms show "groupByDimension ap list [] = []" by simp
next
  assume "groupByDimension ap list [] = []"
  with assms show "dimensionGroups env ap list m = []"
    by (simp add: dimensionGroups_def rangeMap_def)
qed

lemma BatchSave_run:
  "\<exists>new. calls (snd (BatchSave env list ap m)) = calls m @ new
         \<and> map ID (upsertedRows new) =
             map (uuidNew env) [uuidCount m..<uuidCount (snd (BatchSave env list ap m))]
         \<and> (\<forall>row \<in> set (upsertedRows new). IsEnabled row)"
proof (cases "groupByDimension ap list [] = []")
  case True
  then show ?thesis by (simp add: BatchSave_eq)
next
  case False
  let ?m0 = "m\<lparr>rangeCount := rangeCount m + 1\<rparr>"
  obtain r m' where S: "saveGroups env ap (dimensionGroups env ap list m) ?m0 = (r, m')"
    by (cases "saveGroups env ap (dimensionGroups env ap list m) ?m0")
  from saveGroups_run[OF S] obtain new where
    "calls m' = calls ?m0 @ new"
    "map ID (upsertedRows new) = map (uuidNew env) [uuidCount ?m0..<uuidCount m']"
    "\<forall>row \<in> set (upsertedRows new). IsEnabled row" by blast
  with False S show ?thesis by (auto simp: BatchSave_eq)
qed

text \<open>
  C6. \<open>BatchSave\<close> partitions its records by the dimension of their embedding:
  the groups it ranges over are one per dimension, each with all the records of that
  dimension in input order, and a record with an empty embedding is in no group, in
  whatever order the range visits the groups. It returns success exactly when every
  group is saved, one after the other. It returns an error (or panics) \<open>r\<close> exactly
  when some group fails with \<open>r\<close> after all groups before it were saved; the repository
  is then as the failing group left it, so no later group is processed. Saving a group
  is: ensure the collection of its dimension and, when that succeeds, one upsert into
  that collection of the rows of all its records, the rows being the converted records
  with identifiers drawn one per row from the supply; an upsert error is returned
  wrapped with the dimension. Over the whole run the identifiers of the upserted rows
  are the next unused identifiers of the supply, each used once, hence distinct when
  the supply never repeats.
\<close>

theorem BatchSave_partition_fail_fast:
  assumes "distinct (rangePerm env (rangeCount m) (length (groupByDimension ap list [])))"
    and "set (rangePerm env (rangeCount m) (length (groupByDimension ap list []))) =
           {0..<length (groupByDimension ap list [])}"
  shows "groupsOf ap list (dimensionGroups env ap list m)
     \<and> (BatchSave env list ap m = (Ok (), m') \<longleftrightarrow>
          (if dimensionGroups env ap list m = [] then m' = m
           else savesAll env ap (dimensionGroups env ap list m) (m\<lparr>rangeCount := rangeCount m + 1\<rparr>) m'))
     \<and> (r \<noteq> Ok () \<longrightarrow>
          (BatchSave env list ap m = (r, m') \<longleftrightarrow>
             (\<exists>pre g post m1. dimensionGroups env ap list m = pre @ g # post
                \<and> savesAll env ap pre (m\<lparr>rangeCount := rangeCount m + 1\<rparr>) m1
                \<and> saveGroup env ap g m1 = (r, m'))))
     \<and> (\<forall>g m1. saveGroup env ap g m1 =
          (case ensureCollection env (fst g) m1 of
             (Ok u, m2) \<Rightarrow>
               ((case upsert env (calls m2) (getCollectionName m2 (fst g))
                            (rowsWithIDs env ap (snd g) (uuidCount m2)) of
                   None \<Rightarrow> Ok ()
                 | Some err \<Rightarrow> Err (Wrap (''failed to batch save (dimension '' @ itoa (fst g) @ '')'') err)),
                m2\<lparr>uuidCount := uuidCount m2 + length (snd g),
                   calls := calls m2 @ [UpsertCall (getCollectionName m2 (fst g))
                                                   (rowsWithIDs env ap (snd g) (uuidCount m2))]\<rparr>)
           | (Err err, m2) \<Rightarrow> (Err err, m2)
           | (Panic p, m2) \<Rightarrow> (Panic p, m2)))
     \<and> (\<forall>es k. map (\<lambda>row. row\<lparr>ID := []\<rparr>) (rowsWithIDs env ap es k) = map (\<lambda>e. toMilvusVectorEmbedding e ap) es
               \<and> map ID (rowsWithIDs env ap es k) = map (uuidNew env) [k..<k + length es])
     \<and> (\<exists>new. calls (snd (BatchSave env list ap m)) = calls m @ new
            \<and> map ID (upsertedRows new) =
                map (uuidNew env) [uuidCount m..<uuidCount (snd (BatchSave env list ap m))]
            \<and> (inj (uuidNew env) \<longrightarrow> distinct (map ID (upsertedRows new))))"
proof -
  let ?G = "groupByDimension ap list []"
  let ?D = "dimensionGroups env ap list m"
  let ?m0 = "m\<lparr>rangeCount := rangeCount m + 1\<rparr>"
  have D: "?D = map (\<lambda>i. ?G ! i) (rangePerm env (rangeCount m) (length ?G))"
    by (simp add: dimensionGroups_def rangeMap_def)
  have 1: "groupsOf ap list ?D"
    unfolding D by (rule groupsOf_permutation[OF groupByDimension_partition assms])
  note nil = dimensionGroups_Nil_iff[OF assms(2)]
  have 2: "BatchSave env list ap m = (Ok (), m') \<longleftrightarrow>
          (if ?D = [] then m' = m else savesAll env ap ?D ?m0 m')"
    by (auto simp: BatchSave_eq nil saveGroups_Ok_iff)
  have 3: "r \<noteq> Ok () \<longrightarrow>
          (BatchSave env list ap m = (r, m') \<longleftrightarrow>
             (\<exists>pre g post m1. ?D = pre @ g # post \<and> savesAll env ap pre ?m0 m1
                \<and> saveGroup env ap g m1 = (r, m')))"
  proof
    assume r: "r \<noteq> Ok ()"
    show "BatchSave env list ap m = (r, m') \<longleftrightarrow>
             (\<exists>pre g post m1. ?D = pre @ g # post \<and> savesAll env ap pre ?m0 m1
                \<and> saveGroup env ap g m1 = (r, m'))"
    proof (cases "?G = []")
      case True
      with nil have "?D = []" by simp
      with True r show ?thesis by (auto simp: BatchSave_eq)
    next
      case False
      then show ?thesis by (simp add: BatchSave_eq saveGroups_failure_iff[OF r])
    qed
  qed
  from BatchSave_run[of env list ap m] obtain new where
    N: "calls (snd (BatchSave env list ap m)) = calls m @ new"
       "map ID (upsertedRows new) =
          map (uuidNew env) [uuidCount m..<uuidCount (snd (BatchSave env list ap m))]" by blast
  have "inj (uuidNew env) \<longrightarrow> distinct (map ID (upsertedRows new))"
    unfolding N(2) by (auto simp: distinct_map intro: inj_on_subset)
  with N have 6: "\<exists>new. calls (snd (BatchSave env list ap m)) = calls m @ new
            \<and> map ID (upsertedRows new) =
                map (uuidNew env) [uuidCount m..<uuidCount (snd (BatchSave env list ap m))]
            \<and> (inj (uuidNew env) \<longrightarrow> distinct (map ID (upsertedRows new)))" by blast
  from 1 2 3 6 saveGroup_eq rowsWithIDs_rows rowsWithIDs_IDs show ?thesis by simp
qed


lemma sample_rows:
  "toMilvusVectorEmbedding (sampleInfo ''s1'') sampleParams =
     \<lparr>ID = [], Content = ''text of s1'', SourceID = ''s1'', SourceType = 0, ChunkID = ''s1'',
      KnowledgeID = ''k1'', KnowledgeBaseID = ''b1'', TagID = [], Embedding = [1, 2], IsEnabled = True\<rparr>"
  "toMilvusVectorEmbedding (sampleInfo ''s2'') sampleParams =
     \<lparr>ID = [], Content = ''text of s2'', SourceID = ''s2'', SourceType = 0, ChunkID = ''s2'',
      KnowledgeID = ''k1'', KnowledgeBaseID = ''b1'', TagID = [], Embedding = [1, 2, 3], IsEnabled = True\<rparr>"
  "Embedding (toMilvusVectorEmbedding (sampleInfo ''s3'') sampleParams) = []"
  by (simp_all add: toMilvusVectorEmbedding_def sampleInfo_def sampleParams_def fieldEmbedding_def)

lemma sample_groups:
  "groupByDimension sampleParams [sampleInfo ''s1'', sampleInfo ''s3'', sampleInfo ''s2''] [] =
     [(2, [sampleInfo ''s1'']), (3, [sampleInfo ''s2''])]"
  by (simp add: sample_rows Let_def)

lemma itoa_2_3: "itoa 2 = ''2''" "itoa 3 = ''3''"
  by (simp_all add: itoa_def decimal.simps digit_char_def)

lemma decimal_0_1: "decimal 0 = ''0''" "decimal (Suc 0) = ''1''"
  by (simp_all add: decimal.simps digit_char_def)

theorem BatchSave_partition_fail_fast_witness:
  "BatchSave emptyStore [sampleInfo ''s1'', sampleInfo ''s3'', sampleInfo ''s2''] sampleParams repo0 =
     (Ok (),
      \<lparr>collectionBaseName = ''weknora_embeddings'', initializedCollections = {3, 2},
       calls =
         [HasCollectionCall ''weknora_embeddings_2'', CreateCollectionCall ''weknora_embeddings_2'' 2,
          LoadCollectionCall ''weknora_embeddings_2'', AwaitLoadCall ''weknora_embeddings_2'',
          UpsertCall ''weknora_embeddings_2''
            [\<lparr>ID = ''id-0'', Content = ''text of s1'', SourceID = ''s1'', SourceType = 0,
              ChunkID = ''s1'', KnowledgeID = ''k1'', KnowledgeBaseID = ''b1'', TagID = [],
              Embedding = [1, 2], IsEnabled = True\<rparr>],
          HasCollectionCall ''weknora_embeddings_3'', CreateCollectionCall ''weknora_embeddings_3'' 3,
          LoadCollectionCall ''weknora_embeddings_3'', AwaitLoadCall ''weknora_embeddings_3'',
          UpsertCall ''weknora_embeddings_3''
            [\<lparr>ID = ''id-1'', Content = ''text of s2'', SourceID = ''s2'', SourceType = 0,
              ChunkID = ''s2'', KnowledgeID = ''k1'', KnowledgeBaseID = ''b1'', TagID = [],
              Embedding = [1, 2, 3], IsEnabled = True\<rparr>]],
       uuidCount = 2, rangeCount = 1\<rparr>)"
proof -
  let ?list = "[sampleInfo ''s1'', sampleInfo ''s3'', sampleInfo ''s2'']"
  let ?m0 = "repo0\<lparr>rangeCount := rangeCount repo0 + 1\<rparr>"
  let ?u1 = "UpsertCall ''weknora_embeddings_2''
            [\<lparr>ID = ''id-0'', Content = ''text of s1'', SourceID = ''s1'', SourceType = 0,
              ChunkID = ''s1'', KnowledgeID = ''k1'', KnowledgeBaseID = ''b1'', TagID = [],
              Embedding = [1, 2], IsEnabled = True\<rparr>]"
  let ?u2 = "UpsertCall ''weknora_embeddings_3''
            [\<lparr>ID = ''id-1'', Content = ''text of s2'', SourceID = ''s2'', SourceType = 0,
              ChunkID = ''s2'', KnowledgeID = ''k1'', KnowledgeBaseID = ''b1'', TagID = [],
              Embedding = [1, 2, 3], IsEnabled = True\<rparr>]"
  let ?c1 = "[HasCollectionCall ''weknora_embeddings_2'', CreateCollectionCall ''weknora_embeddings_2'' 2,
          LoadCollectionCall ''weknora_embeddings_2'', AwaitLoadCall ''weknora_embeddings_2'', ?u1]"
  let ?c2 = "[HasCollectionCall ''weknora_embeddings_3'', CreateCollectionCall ''weknora_embeddings_3'' 3,
          LoadCollectionCall ''weknora_embeddings_3'', AwaitLoadCall ''weknora_embeddings_3'', ?u2]"
  let ?m1 = "\<lparr>collectionBaseName = ''weknora_embeddings'', initializedCollections = {2},
              calls = ?c1, uuidCount = 1, rangeCount = 1\<rparr>"
  let ?m2 = "\<lparr>collectionBaseName = ''weknora_embeddings'', initializedCollections = {3, 2},
              calls = ?c1 @ ?c2, uuidCount = 2, rangeCount = 1\<rparr>"
  have p1: "distinct (rangePerm emptyStore (rangeCount repo0) (length (groupByDimension sampleParams ?list [])))"
    by (simp add: emptyStore_def)
  have p2: "set (rangePerm emptyStore (rangeCount repo0) (length (groupByDimension sampleParams ?list []))) =
              {0..<length (groupByDimension sampleParams ?list [])}"
    by (simp add: emptyStore_def)
  have D: "dimensionGroups emptyStore sampleParams ?list repo0 =
             [(2, [sampleInfo ''s1'']), (3, [sampleInfo ''s2''])]"
    unfolding dimensionGroups_def rangeMap_def sample_groups
    by (simp add: emptyStore_def upt_rec)
  have s1: "saveGroup emptyStore sampleParams (2, [sampleInfo ''s1'']) ?m0 = (Ok (), ?m1)"
    by (simp add: saveGroup_def ensureCollection_def client_call_defs newUUID_def Let_def
        getCollectionName_def itoa_2_3 decimal_0_1 sample_rows emptyStore_def repo0_def)
  have s2: "saveGroup emptyStore sampleParams (3, [sampleInfo ''s2'']) ?m1 = (Ok (), ?m2)"
    by (simp add: saveGroup_def ensureCollection_def client_call_defs newUUID_def Let_def
        getCollectionName_def itoa_2_3 decimal_0_1 sample_rows emptyStore_def)
  have sa: "savesAll emptyStore sampleParams (dimensionGroups emptyStore sampleParams ?list repo0) ?m0 ?m2"
    unfolding D by (rule savesAll_Cons[OF s1]) (rule savesAll_Cons[OF s2], rule savesAll_Nil)
  from BatchSave_partition_fail_fast[OF p1 p2, of ?m2] sa D
  have "BatchSave emptyStore ?list sampleParams repo0 = (Ok (), ?m2)" by simp
  then show ?thesis by simp
qed

subsection \<open>Cross-base copier\<close>








lemma Convert_pageFilter:
  "Convert (Cond fieldKnowledgeBaseID operatorEqual (VString sourceKB)) =
     Ok \<lparr>exprStr = ''knowledge_base_id == {knowledge_base_id_1}'',
         params = [''knowledge_base_id_1'' \<mapsto> VString sourceKB]\<rparr>"
  by (simp add: Convert_def isComparisonOp_def operator_defs field_defs convertComparisonCondition_def
      comparisonOperators_def convertParamName_def replaceDots_def decimal.simps digit_char_def)

lemma searchByFilter_page:
  "searchByFilter env name (Cond fieldKnowledgeBaseID operatorEqual (VString sourceKB)) (Some batchSize) off m =
     (case query env (calls m) (pageRequest name sourceKB off) of
        Inl err \<Rightarrow> Err err
      | Inr rs \<Rightarrow>
          (case convertResultSet env [rs] of
             Err err \<Rightarrow> Err err
           | Panic p \<Rightarrow> Panic p
           | Ok (embeddings, scores) \<Rightarrow> Ok (embeddings, ResultCount rs)),
      m\<lparr>calls := calls m @ [QueryCall (pageRequest name sourceKB off)]\<rparr>)"
  by (simp add: searchByFilter_def Convert_pageFilter withFilter_def clientQuery_def pageRequest_def
      batchSize_def Let_def split: sum.splits result.splits prod.splits)























lemma itoa_2: "itoa 2 = ''2''"
  by (simp add: itoa_def decimal.simps digit_char_def)

lemma savedRepo_eq:
  "savedRepo =
     \<lparr>collectionBaseName = ''weknora_embeddings'', initializedCollections = {2},
      calls = [HasCollectionCall ''weknora_embeddings_2'',
               CreateCollectionCall ''weknora_embeddings_2'' 2,
               LoadCollectionCall ''weknora_embeddings_2'',
               AwaitLoadCall ''weknora_embeddings_2'',
               UpsertCall ''weknora_embeddings_2''
                 [\<lparr>ID = ''id-0'', Content = ''text of s1'', SourceID = ''s1'', SourceType = 0,
                   ChunkID = ''s1'', KnowledgeID = ''k1'', KnowledgeBaseID = ''b1'', TagID = [],
                   Embedding = [1, 2], IsEnabled = True\<rparr>]],
      uuidCount = 1, rangeCount = 0\<rparr>"
  by (simp add: savedRepo_def Save_def toMilvusVectorEmbedding_def sampleInfo_def sampleParams_def
      field_defs ensureCollection_def client_call_defs Let_def getCollectionName_def itoa_2
      keepingStore_def emptyStore_def repo0_def newUUID_def decimal.simps digit_char_def)

lemma savedRepo_stored:
  "storedRows (calls savedRepo) ''weknora_embeddings_2'' =
     [\<lparr>ID = ''id-0'', Content = ''text of s1'', SourceID = ''s1'', SourceType = 0,
       ChunkID = ''s1'', KnowledgeID = ''k1'', KnowledgeBaseID = ''b1'', TagID = [],
       Embedding = [1, 2], IsEnabled = True\<rparr>]"
  by (simp add: savedRepo_eq storedRows_def)

lemma keepingStore_page:
  "query keepingStore (calls savedRepo) (pageRequest ''weknora_embeddings_2'' ''b1'' None) =
     Inr (schemaResultSet
       [\<lparr>ID = ''id-0'', Content = ''text of s1'', SourceID = ''s1'', SourceType = 0,
         ChunkID = ''s1'', KnowledgeID = ''k1'', KnowledgeBaseID = ''b1'', TagID = [],
         Embedding = [1, 2], IsEnabled = True\<rparr>])"
  by (simp add: keepingStore_def emptyStore_def pageRequest_def savedRepo_stored pageOf_def
      inKnowledgeBase_def)

lemma convertResultSet_schema:
  "convertResultSet keepingStore
     [schemaResultSet
       [\<lparr>ID = ''id-0'', Content = ''text of s1'', SourceID = ''s1'', SourceType = 0,
         ChunkID = ''s1'', KnowledgeID = ''k1'', KnowledgeBaseID = ''b1'', TagID = [],
         Embedding = [1, 2], IsEnabled = True\<rparr>]] =
     Ok ([\<lparr>ID = ''id-0'', Content = ''text of s1'', SourceID = ''s1'', SourceType = 0,
           ChunkID = ''s1'', KnowledgeID = ''k1'', KnowledgeBaseID = ''b1'', TagID = [],
           Embedding = [], IsEnabled = True, Score = 0\<rparr>], [])"
  by (simp add: convertResultSet_def schemaResultSet_def allFields_def GetColumn_def decodeField_def
      field_defs stringColumn_def int64Column_def boolColumn_def floatVectorColumn_def
      columnAt_def notSupported_def zeroRow_def)

text \<open>
  C7. The copy does not keep the embedding. \<open>Save\<close> writes one record of knowledge base
  \<open>b1\<close> with the embedding \<open>[1, 2]\<close> into a store that keeps what is upserted and
  answers in the column types of the collection's schema. \<open>CopyIndices\<close> from \<open>b1\<close> to
  \<open>b2\<close>, with both tables knowing the record, then reads the row back: the embedding
  column is a float-vector column, \<open>convertResultSet\<close> decodes embeddings only from a
  double-array column, so the decoded row has no embedding, and the copy handed to the
  store has the remapped identifiers, the content, tag and enabled flag of the source
  row, and the empty embedding. The history of calls shows the row as it was saved and
  the copy as it was upserted.
\<close>

theorem CopyIndices_drops_embedding:
  "CopyIndices keepingStore ''b1'' [(''k1'', ''K1'')] [(''s1'', ''n1'')] ''b2'' 2 ''manual'' savedRepo =
     Some (Ok (),
       \<lparr>collectionBaseName = ''weknora_embeddings'', initializedCollections = {2},
        calls = [HasCollectionCall ''weknora_embeddings_2'',
                 CreateCollectionCall ''weknora_embeddings_2'' 2,
                 LoadCollectionCall ''weknora_embeddings_2'',
                 AwaitLoadCall ''weknora_embeddings_2'',
                 UpsertCall ''weknora_embeddings_2''
                   [\<lparr>ID = ''id-0'', Content = ''text of s1'', SourceID = ''s1'', SourceType = 0,
                     ChunkID = ''s1'', KnowledgeID = ''k1'', KnowledgeBaseID = ''b1'', TagID = [],
                     Embedding = [1, 2], IsEnabled = True\<rparr>],
                 QueryCall (pageRequest ''weknora_embeddings_2'' ''b1'' None),
                 UpsertCall ''weknora_embeddings_2''
                   [\<lparr>ID = ''id-1'', Content = ''text of s1'', SourceID = ''n1'', SourceType = 0,
                     ChunkID = ''n1'', KnowledgeID = ''K1'', KnowledgeBaseID = ''b2'', TagID = [],
                     Embedding = [], IsEnabled = True\<rparr>]],
        uuidCount = 2, rangeCount = 0\<rparr>)"
proof -
  have gn: "getCollectionName savedRepo 2 = ''weknora_embeddings_2''"
    by (simp add: getCollectionName_def itoa_2 savedRepo_eq)
  have e: "ensureCollection keepingStore 2 savedRepo = (Ok (), savedRepo)"
    by (simp add: ensureCollection_def savedRepo_eq)
  have u: "uuidNew keepingStore = (\<lambda>k. ''id-'' @ decimal k)" "upsert keepingStore = (\<lambda>h name rows. None)"
    by (simp_all add: keepingStore_def emptyStore_def)
  have p: "copyPage keepingStore ''weknora_embeddings_2'' ''b1'' (map_of [(''k1'', ''K1'')])
             (map_of [(''s1'', ''n1'')]) ''b2'' None savedRepo =
           (Ok Break, savedRepo\<lparr>calls := calls savedRepo @
              [QueryCall (pageRequest ''weknora_embeddings_2'' ''b1'' None),
               UpsertCall ''weknora_embeddings_2''
                   [\<lparr>ID = ''id-1'', Content = ''text of s1'', SourceID = ''n1'', SourceType = 0,
                     ChunkID = ''n1'', KnowledgeID = ''K1'', KnowledgeBaseID = ''b2'', TagID = [],
                     Embedding = [], IsEnabled = True\<rparr>]], uuidCount := 2\<rparr>)"
    by (simp add: copyPage_def searchByFilter_page keepingStore_page convertResultSet_schema)
       (simp add: copyRow_def Let_def newUUID_def u clientUpsert_def batchSize_def
          schemaResultSet_def decimal.simps digit_char_def savedRepo_eq)
  have l: "copyLoop keepingStore ''weknora_embeddings_2'' ''b1'' (map_of [(''k1'', ''K1'')])
             (map_of [(''s1'', ''n1'')]) ''b2'' None savedRepo =
           Some (Ok (), savedRepo\<lparr>calls := calls savedRepo @
              [QueryCall (pageRequest ''weknora_embeddings_2'' ''b1'' None),
               UpsertCall ''weknora_embeddings_2''
                   [\<lparr>ID = ''id-1'', Content = ''text of s1'', SourceID = ''n1'', SourceType = 0,
                     ChunkID = ''n1'', KnowledgeID = ''K1'', KnowledgeBaseID = ''b2'', TagID = [],
                     Embedding = [], IsEnabled = True\<rparr>]], uuidCount := 2\<rparr>)"
    by (subst copyLoop.simps) (simp only: p prod.case result.case loopStep.case)
  show ?thesis
    unfolding CopyIndices_def Let_def e gn prod.case result.case l
    by (simp add: savedRepo_eq)
qed

subsection \<open>The enabled flag\<close>




lemma writesOnlyEnabled_rangeCount [simp]:
  "writesOnlyEnabled (m\<lparr>rangeCount := k\<rparr>) m' = writesOnlyEnabled m m'"
  by (simp add: writesOnlyEnabled_def)







lemma truncate_IsEnabled [simp]:
  "IsEnabled (MilvusVectorEmbedding.truncate d) = IsEnabled d"
  by (simp add: MilvusVectorEmbedding.truncate_def)













lemma tagStore_facts:
  "listCollections tagStore h = Inr [''weknora_embeddings_4'']"
  "query tagStore h qopt = Inr (rowsResultSet [sampleRow ''x''])"
  "upsert tagStore h name rows = None"
  "float32 tagStore = (\<lambda>x. x)"
  "rangePerm tagStore k n = [0..<n]"
  by (simp_all add: tagStore_def emptyStore_def)


lemma Convert_chunk_in:
  "ids \<noteq> [] \<Longrightarrow> Convert (Cond fieldChunkID operatorIn (strings ids)) =
     Ok \<lparr>exprStr = ''chunk_id in {chunk_id_1}'', params = [''chunk_id_1'' \<mapsto> strings ids]\<rparr>"
  by (simp add: Convert_def isComparisonOp_def isLogicalOp_def isInOp_def operator_defs field_defs
      convertInCondition_def strings_def convertParamName_def replaceDots_def decimal.simps
      digit_char_def ToLower_def lowerChar_def)

lemma tagStore_search:
  "ids \<noteq> [] \<Longrightarrow>
   searchByFilter tagStore name (Cond fieldChunkID operatorIn (strings ids)) None None m =
     (Ok ([MilvusVectorEmbedding.extend (sampleRow ''x'') \<lparr>Score = 0\<rparr>], 1),
      m\<lparr>calls := calls m @ [QueryCall \<lparr>queryCollection = name,
                                        queryFilter = Some (''chunk_id in {chunk_id_1}'',
                                                            [''chunk_id_1'' \<mapsto> strings ids]),
                                        queryOutputFields = [''*''], queryLimit = None,
                                        queryOffset = None\<rparr>]\<rparr>)"
  by (simp add: searchByFilter_def Convert_chunk_in withFilter_def clientQuery_def tagStore_facts
      convertResultSet_rows1 Let_def)
     (simp add: rowsResultSet_def sampleRow_def MilvusVectorEmbedding.defs)

lemma hasBasePrefix_repo0: "hasBasePrefix (repo0\<lparr>calls := c, rangeCount := k\<rparr>) ''weknora_embeddings_4''"
  by (simp add: hasBasePrefix_def repo0_def)


lemma tag_run:
  "upsertedRows (calls (snd (BatchUpdateChunkTagID tagStore [(''c1'', ''t9'')] repo0))) =
     [(sampleRow ''x'')\<lparr>TagID := ''t9''\<rparr>]"
  by (simp add: BatchUpdateChunkTagID_def clientListCollections_def tagStore_facts rangeMap_def
      upt_rec updateTagGroup_def tagStore_search clientUpsert_def Let_def hasBasePrefix_repo0)
     (simp add: MilvusVectorEmbedding.defs sampleRow_def repo0_def)






lemma writesBack_rangeCount [simp]:
  "writesBack R env (m\<lparr>rangeCount := k\<rparr>) m' = writesBack R env m m'"
  by (simp add: writesBack_def)















lemma rowsOfAnswer_other [simp]:
  "rowsOfAnswer env h (UpsertCall n rows) = []"
  "rowsOfAnswer env h ListCollectionsCall = []"
  by (simp_all add: rowsOfAnswer_def)










subsection \<open>Parameter names of trees without a range leaf\<close>

text \<open>
  The counter alone keeps the names apart as long as no leaf is a \<open>between\<close>: the decimal
  rendering of the counter is the text after the last underscore of a name, so two names
  made at different counter values differ, and the merged map of an accepted tree has one
  entry for each leaf.
\<close>

lemma digit_char_inj: "a < 10 \<Longrightarrow> b < 10 \<Longrightarrow> digit_char a = digit_char b \<Longrightarrow> a = b"
  unfolding digit_char_def by (simp split: if_splits; arith)

lemma digit_char_not_underscore: "digit_char d \<noteq> CHR ''_''"
  by (simp add: digit_char_def)

lemma decimal_no_underscore: "CHR ''_'' \<notin> set (decimal n)"
proof (induction n rule: decimal.induct)
  case (1 n)
  show ?case
  proof (cases "n < 10")
    case True
    then show ?thesis using digit_char_not_underscore[of n] by (subst decimal.simps) auto
  next
    case False
    with 1 show ?thesis using digit_char_not_underscore[of "n mod 10"] by (subst decimal.simps) auto
  qed
qed

lemma decimal_length: "length (decimal n) = 1 \<longleftrightarrow> n < 10"
proof (cases "n < 10")
  case True
  then show ?thesis by (subst decimal.simps) simp
next
  case False
  have "decimal (n div 10) \<noteq> []" by (subst decimal.simps) simp
  with False show ?thesis by (subst decimal.simps) simp
qed

lemma decimal_inj: "decimal n = decimal m \<Longrightarrow> n = m"
proof (induction n arbitrary: m rule: decimal.induct)
  case (1 n)
  show ?case
  proof (cases "n < 10")
    case True
    with "1.prems" decimal_length[of n] decimal_length[of m] have m: "m < 10" by simp
    from True m "1.prems" have "[digit_char n] = [digit_char m]"
      by (simp add: decimal.simps[of n] decimal.simps[of m])
    with True m show ?thesis by (simp add: digit_char_inj)
  next
    case False
    with "1.prems" decimal_length[of n] decimal_length[of m] have m: "\<not> m < 10" by simp
    from False m "1.prems"
    have "decimal (n div 10) @ [digit_char (n mod 10)] = decimal (m div 10) @ [digit_char (m mod 10)]"
      by (simp add: decimal.simps[of n] decimal.simps[of m])
    then have "decimal (n div 10) = decimal (m div 10)" "digit_char (n mod 10) = digit_char (m mod 10)"
      by simp_all
    with "1.IH"[OF False] have "n div 10 = m div 10" "n mod 10 = m mod 10"
      by (auto intro: digit_char_inj)
    then show ?thesis by (metis div_mult_mod_eq)
  qed
qed

lemma last_segment_unique:
  assumes "a @ ''_'' @ d = b @ ''_'' @ d'" "CHR ''_'' \<notin> set d" "CHR ''_'' \<notin> set d'"
  shows "d = d'"
proof -
  from assms(1) have "rev (a @ ''_'' @ d) = rev (b @ ''_'' @ d')" by simp
  then have "rev d @ CHR ''_'' # rev a = rev d' @ CHR ''_'' # rev b" by simp
  then have "takeWhile (\<lambda>c. c \<noteq> CHR ''_'') (rev d @ CHR ''_'' # rev a) =
             takeWhile (\<lambda>c. c \<noteq> CHR ''_'') (rev d' @ CHR ''_'' # rev b)" by simp
  moreover have "takeWhile (\<lambda>c. c \<noteq> CHR ''_'') (rev d @ CHR ''_'' # rev a) = rev d"
    using assms(2) by (auto simp: takeWhile_tail)
  moreover have "takeWhile (\<lambda>c. c \<noteq> CHR ''_'') (rev d' @ CHR ''_'' # rev b) = rev d'"
    using assms(3) by (auto simp: takeWhile_tail)
  ultimately show ?thesis by simp
qed

lemma namesBetween_disjoint: "n \<le> k \<Longrightarrow> namesBetween n k \<inter> namesBetween k k' = {}"
proof (rule ccontr)
  assume "n \<le> k" and "namesBetween n k \<inter> namesBetween k k' \<noteq> {}"
  then obtain f j g j' where "replaceDots f @ ''_'' @ decimal j = replaceDots g @ ''_'' @ decimal j'"
    "n < j" "j \<le> k" "k < j'" "j' \<le> k'"
    by (auto simp: namesBetween_def)
  with last_segment_unique[OF this(1) decimal_no_underscore decimal_no_underscore] decimal_inj
  show False by fastforce
qed

lemma namesBetween_mono: "n' \<le> n \<Longrightarrow> k \<le> k' \<Longrightarrow> namesBetween n k \<subseteq> namesBetween n' k'"
  by (fastforce simp: namesBetween_def)


lemma leaf_names:
  assumes "convertComparisonCondition f op v n = (Ok r, k) \<or> convertInCondition f op v n = (Ok r, k)"
  shows "k = Suc n \<and> dom (params r) \<subseteq> namesBetween n k \<and> finite (dom (params r)) \<and>
         card (dom (params r)) = 1 \<and> exprStr r \<noteq> []"
proof -
  from assms have "k = Suc n \<and> params r = [fst (convertParamName f n) \<mapsto> v] \<and> exprStr r \<noteq> []"
    using cmp_shape[of f op v n r k] in_shape[of f op v n r k] by auto
  moreover have "fst (convertParamName f n) \<in> namesBetween n (Suc n)"
    by (auto simp: namesBetween_def convertParamName_def)
  ultimately show ?thesis by simp
qed

lemma joinLogical_names:
  assumes "exprStr r \<noteq> []"
  shows "accNames (joinLogical op acc r) = accNames acc \<union> dom (params r)"
  using assms by (auto simp: accNames_def joinLogical_def split: option.splits)

lemma joinLogical_nonempty:
  assumes "exprStr r \<noteq> []" "\<forall>a. acc = Some a \<longrightarrow> exprStr a \<noteq> []"
  shows "\<forall>a. joinLogical op acc r = Some a \<longrightarrow> exprStr a \<noteq> []"
  using assms by (auto simp: joinLogical_def split: option.splits)

lemma one_name_per_leaf:
  "noBetween c \<Longrightarrow> (\<forall>n r k. convertCondition c n = (Ok r, k) \<longrightarrow>
      k = n + leafCount c \<and> dom (params r) \<subseteq> namesBetween n k \<and> finite (dom (params r)) \<and>
      card (dom (params r)) = leafCount c \<and> exprStr r \<noteq> [])"
  "noBetweens cs \<Longrightarrow> (\<forall>op acc n0 n res k. convertLogicalLoop op cs acc n = (Ok res, k) \<longrightarrow>
      n0 \<le> n \<longrightarrow> accNames acc \<subseteq> namesBetween n0 n \<longrightarrow> finite (accNames acc) \<longrightarrow>
      (\<forall>a. acc = Some a \<longrightarrow> exprStr a \<noteq> []) \<longrightarrow>
      k = n + leafCounts cs \<and> accNames res \<subseteq> namesBetween n0 k \<and> finite (accNames res) \<and>
      card (accNames res) = card (accNames acc) + leafCounts cs \<and>
      (\<forall>a. res = Some a \<longrightarrow> exprStr a \<noteq> []))"
proof (induction c and cs rule: leafCount_leafCounts.induct)
  case 1
  then show ?case by simp
next
  case (2 f op v)
  show ?case
  proof (intro allI impI)
    fix n r k
    assume A: "convertCondition (Cond f op v) n = (Ok r, k)"
    consider (cmp) "isComparisonOp op" | (log) "\<not> isComparisonOp op" "isLogicalOp op"
      | (inop) "\<not> isComparisonOp op" "\<not> isLogicalOp op" "isInOp op"
      | (btw) "\<not> isComparisonOp op" "\<not> isLogicalOp op" "\<not> isInOp op" "op = operatorBetween"
      | (other) "\<not> isComparisonOp op" "\<not> isLogicalOp op" "\<not> isInOp op" "op \<noteq> operatorBetween"
      by blast
    then show "k = n + leafCount (Cond f op v) \<and> dom (params r) \<subseteq> namesBetween n k \<and>
      finite (dom (params r)) \<and> card (dom (params r)) = leafCount (Cond f op v) \<and> exprStr r \<noteq> []"
    proof cases
      case cmp
      then have nl: "\<not> isLogicalOp op" by (auto simp: isComparisonOp_def isLogicalOp_def operator_defs)
      from A have "convertComparisonCondition f op v n = (Ok r, k)" by (simp only: cc_cmp[OF cmp])
      with leaf_names[of f op v n r k] nl show ?thesis by auto
    next
      case log
      from cc_logical_Ok[OF log A] obtain cs where v: "v = VConds cs"
        and L: "convertLogicalLoop op cs None n = (Ok (Some r), k)" by blast
      from "2.prems" log v have nb: "noBetweens cs" by simp
      have pre: "n \<le> n" "accNames None \<subseteq> namesBetween n n" "finite (accNames None)"
        by (simp_all add: accNames_def)
      from "2.IH"[OF log(2) v nb, rule_format, OF L pre]
      have "k = n + leafCounts cs \<and> accNames (Some r) \<subseteq> namesBetween n k \<and> finite (accNames (Some r)) \<and>
        card (accNames (Some r)) = card (accNames None) + leafCounts cs \<and>
        (\<forall>a. Some r = Some a \<longrightarrow> exprStr a \<noteq> [])" by blast
      with log v show ?thesis by (auto simp: accNames_def)
    next
      case inop
      from A have "convertInCondition f op v n = (Ok r, k)" by (simp only: cc_in[OF inop])
      with leaf_names[of f op v n r k] inop show ?thesis by auto
    next
      case btw
      with "2.prems" show ?thesis by simp
    next
      case other
      from A show ?thesis by (simp only: cc_other[OF other]) simp
    qed
  qed
next
  case 3
  then show ?case by simp
next
  case (4 c cs)
  show ?case
  proof (intro allI impI)
    fix op acc n0 n res k
    assume A: "convertLogicalLoop op (c # cs) acc n = (Ok res, k)"
      and le: "n0 \<le> n" and sub: "accNames acc \<subseteq> namesBetween n0 n" and fin: "finite (accNames acc)"
      and ne: "\<forall>a. acc = Some a \<longrightarrow> exprStr a \<noteq> []"
    from "4.prems" have nb: "noBetween c" "noBetweens cs" by simp_all
    from loop_Cons_Ok[OF A] obtain r k1 where A1: "convertCondition c n = (Ok r, k1)"
      and A2: "convertLogicalLoop op cs (joinLogical op acc r) k1 = (Ok res, k)"
      by blast
    from "4.IH"(1)[OF nb(1)] A1 have c: "k1 = n + leafCount c" "dom (params r) \<subseteq> namesBetween n k1"
      "card (dom (params r)) = leafCount c" "exprStr r \<noteq> []" and fr: "finite (dom (params r))" by blast+
    have names: "accNames (joinLogical op acc r) = accNames acc \<union> dom (params r)"
      by (rule joinLogical_names[OF c(4)])
    have disj: "accNames acc \<inter> dom (params r) = {}"
      using namesBetween_disjoint[OF le, of k1] sub c(2) by blast
    have le1: "n0 \<le> k1" using le c(1) by simp
    have sub1: "accNames (joinLogical op acc r) \<subseteq> namesBetween n0 k1"
      using sub c(2) namesBetween_mono[of n0 n0 n k1] namesBetween_mono[of n0 n k1 k1] le c(1)
      unfolding names by fastforce
    have fin1: "finite (accNames (joinLogical op acc r))" unfolding names using fin fr by simp
    have card1: "card (accNames (joinLogical op acc r)) = card (accNames acc) + leafCount c"
      unfolding names using card_Un_disjoint[OF fin fr disj] c(3) by simp
    from "4.IH"(2)[OF nb(2)] A2 le1 sub1 fin1 joinLogical_nonempty[OF c(4) ne, of op]
    have "k = k1 + leafCounts cs \<and> accNames res \<subseteq> namesBetween n0 k \<and> finite (accNames res) \<and>
      card (accNames res) = card (accNames (joinLogical op acc r)) + leafCounts cs \<and>
      (\<forall>a. res = Some a \<longrightarrow> exprStr a \<noteq> [])"
      by blast
    with c(1) card1 show "k = n + leafCounts (c # cs) \<and> accNames res \<subseteq> namesBetween n0 k \<and>
      finite (accNames res) \<and> card (accNames res) = card (accNames acc) + leafCounts (c # cs) \<and>
      (\<forall>a. res = Some a \<longrightarrow> exprStr a \<noteq> [])"
      by auto
  qed
qed

lemma Convert_one_parameter_per_leaf:
  assumes "Convert c = Ok r" "noBetween c"
  shows "card (dom (params r)) = leafCount c"
proof -
  from assms(1) obtain k where "convertCondition c 0 = (Ok r, k)"
    by (cases "convertCondition c 0") (simp add: Convert_def)
  with one_name_per_leaf(1)[OF assms(2)] show ?thesis by blast
qed


subsection \<open>Literals of trees without a range leaf\<close>

text \<open>
  When no leaf is a \<open>between\<close> no binding is overwritten: the values of the returned
  map are exactly the literals of the tree, one entry for each leaf.
\<close>

lemma leaf_values:
  assumes "convertComparisonCondition f op v n = (Ok r, k) \<or> convertInCondition f op v n = (Ok r, k)"
  shows "ran (params r) = {v}"
proof -
  from assms have "params r = [fst (convertParamName f n) \<mapsto> v]"
    using cmp_shape[of f op v n r k] in_shape[of f op v n r k] by auto
  then show ?thesis by simp
qed

lemma joinLogical_values_union:
  assumes "exprStr r \<noteq> []" "accNames acc \<inter> dom (params r) = {}"
  shows "accValues (joinLogical op acc r) = accValues acc \<union> ran (params r)"
  using assms
  by (auto simp: accNames_def accValues_def joinLogical_def ran_map_add split: option.splits)

lemma cmp_not_between: "isComparisonOp op \<Longrightarrow> op \<noteq> operatorBetween \<and> \<not> isLogicalOp op"
  by (auto simp: isComparisonOp_def isLogicalOp_def operator_defs)

lemma in_not_between: "isInOp op \<Longrightarrow> op \<noteq> operatorBetween"
  by (auto simp: isInOp_def operator_defs)

lemma binds_every_literal:
  "noBetween c \<Longrightarrow> (\<forall>n r k. convertCondition c n = (Ok r, k) \<longrightarrow> ran (params r) = literals c)"
  "noBetweens cs \<Longrightarrow> (\<forall>op acc n0 n res k. convertLogicalLoop op cs acc n = (Ok res, k) \<longrightarrow>
      n0 \<le> n \<longrightarrow> accNames acc \<subseteq> namesBetween n0 n \<longrightarrow>
      accValues res = accValues acc \<union> literalsList cs)"
proof (induction c and cs rule: leafCount_leafCounts.induct)
  case 1
  then show ?case by simp
next
  case (2 f op v)
  show ?case
  proof (intro allI impI)
    fix n r k
    assume A: "convertCondition (Cond f op v) n = (Ok r, k)"
    consider (cmp) "isComparisonOp op" | (log) "\<not> isComparisonOp op" "isLogicalOp op"
      | (inop) "\<not> isComparisonOp op" "\<not> isLogicalOp op" "isInOp op"
      | (btw) "\<not> isComparisonOp op" "\<not> isLogicalOp op" "\<not> isInOp op" "op = operatorBetween"
      | (other) "\<not> isComparisonOp op" "\<not> isLogicalOp op" "\<not> isInOp op" "op \<noteq> operatorBetween"
      by blast
    then show "ran (params r) = literals (Cond f op v)"
    proof cases
      case cmp
      from A have "convertComparisonCondition f op v n = (Ok r, k)" by (simp only: cc_cmp[OF cmp])
      with leaf_values[of f op v n r k] cmp_not_between[OF cmp] show ?thesis by simp
    next
      case log
      from cc_logical_Ok[OF log A] obtain cs where v: "v = VConds cs"
        and L: "convertLogicalLoop op cs None n = (Ok (Some r), k)" by blast
      from "2.prems" log v have nb: "noBetweens cs" by simp
      have pre: "n \<le> n" "accNames None \<subseteq> namesBetween n n" by (simp_all add: accNames_def)
      from "2.IH"[OF log(2) v nb, rule_format, OF L pre]
      have "accValues (Some r) = accValues None \<union> literalsList cs" .
      with log v show ?thesis by (simp add: accValues_def)
    next
      case inop
      from A have "convertInCondition f op v n = (Ok r, k)" by (simp only: cc_in[OF inop])
      with leaf_values[of f op v n r k] inop in_not_between[OF inop(3)] show ?thesis by simp
    next
      case btw
      with "2.prems" show ?thesis by simp
    next
      case other
      from A show ?thesis by (simp only: cc_other[OF other]) simp
    qed
  qed
next
  case 3
  then show ?case by simp
next
  case (4 c cs)
  show ?case
  proof (intro allI impI)
    fix op acc n0 n res k
    assume A: "convertLogicalLoop op (c # cs) acc n = (Ok res, k)"
      and le: "n0 \<le> n" and sub: "accNames acc \<subseteq> namesBetween n0 n"
    from "4.prems" have nb: "noBetween c" "noBetweens cs" by simp_all
    from loop_Cons_Ok[OF A] obtain r k1 where A1: "convertCondition c n = (Ok r, k1)"
      and A2: "convertLogicalLoop op cs (joinLogical op acc r) k1 = (Ok res, k)"
      by blast
    from one_name_per_leaf(1)[OF nb(1)] A1 have c: "k1 = n + leafCount c"
      "dom (params r) \<subseteq> namesBetween n k1" "exprStr r \<noteq> []" by blast+
    from "4.IH"(1)[OF nb(1)] A1 have v: "ran (params r) = literals c" by blast
    have disj: "accNames acc \<inter> dom (params r) = {}"
      using namesBetween_disjoint[OF le, of k1] sub c(2) by blast
    have le1: "n0 \<le> k1" using le c(1) by simp
    have sub1: "accNames (joinLogical op acc r) \<subseteq> namesBetween n0 k1"
      using sub c(2) namesBetween_mono[of n0 n0 n k1] namesBetween_mono[of n0 n k1 k1] le c(1)
      unfolding joinLogical_names[OF c(3)] by fastforce
    from "4.IH"(2)[OF nb(2), rule_format, OF A2 le1 sub1]
    have "accValues res = accValues (joinLogical op acc r) \<union> literalsList cs" .
    with joinLogical_values_union[OF c(3) disj, of op] v
    show "accValues res = accValues acc \<union> literalsList (c # cs)" by auto
  qed
qed

lemma Convert_binds_every_literal:
  assumes "Convert c = Ok r" "noBetween c"
  shows "ran (params r) = literals c \<and> card (dom (params r)) = leafCount c"
proof -
  from assms(1) obtain k where "convertCondition c 0 = (Ok r, k)"
    by (cases "convertCondition c 0") (simp add: Convert_def)
  with binds_every_literal(1)[OF assms(2)] one_name_per_leaf(1)[OF assms(2)] show ?thesis by blast
qed

subsection \<open>Placeholders of the expression\<close>

text \<open>
  For every accepted tree whose field names contain no brace, the placeholders of the
  expression are exactly the keys of the parameter map.
\<close>

lemma scan_outside: "CHR ''{'' \<notin> set a \<Longrightarrow> scan None (a @ b) = scan None b"
  by (induction a) auto

lemma scan_inside:
  "CHR ''}'' \<notin> set nm \<Longrightarrow> scan (Some pre) (nm @ CHR ''}'' # b) = (pre @ nm) # scan None b"
  by (induction nm arbitrary: pre) auto

lemma scan_placeholder:
  assumes "CHR ''{'' \<notin> set a" "CHR ''}'' \<notin> set nm"
  shows "scan None (a @ ''{'' @ nm @ ''}'' @ b) = nm # scan None b"
  using assms scan_inside[of nm "[]" b] by (simp add: scan_outside)

lemma plain_decimal: "plain (decimal n)"
proof (induction n rule: decimal.induct)
  case (1 n)
  have d: "\<And>k. plain [digit_char k]" by (simp add: plain_def digit_char_def)
  show ?case
  proof (cases "n < 10")
    case True
    then show ?thesis using d[of n] by (subst decimal.simps) simp
  next
    case False
    with 1 d[of "n mod 10"] show ?thesis by (subst decimal.simps) (auto simp: plain_def)
  qed
qed

lemma plain_name: "plain f \<Longrightarrow> plain (fst (convertParamName f n))"
  using plain_decimal[of "n + 1"]
  by (auto simp: plain_def convertParamName_def replaceDots_def)

lemma plain_operator: "comparisonOperators op = Some operator \<Longrightarrow> plain operator"
  by (auto simp: comparisonOperators_def plain_def split: if_splits)

lemma plain_ToLower_in: "isInOp op \<Longrightarrow> plain (ToLower op)"
  by (auto simp: isInOp_def operator_defs plain_def ToLower_def lowerChar_def)

lemma plain_ToLower_logical: "isLogicalOp op \<Longrightarrow> plain (ToLower op)"
  by (auto simp: isLogicalOp_def operator_defs plain_def ToLower_def lowerChar_def)

lemma leaf_closed:
  assumes "plain a" "plain nm"
  shows "closed (a @ ''{'' @ nm @ ''}'')" "scan None (a @ ''{'' @ nm @ ''}'') = [nm]"
proof -
  have *: "\<And>b. scan None ((a @ ''{'' @ nm @ ''}'') @ b) = nm # scan None b"
    using scan_placeholder[of a nm] assms by (simp add: plain_def)
  from *[of "[]"] show "scan None (a @ ''{'' @ nm @ ''}'') = [nm]" by simp
  with * show "closed (a @ ''{'' @ nm @ ''}'')" unfolding closed_def by simp
qed


lemma join_scan:
  assumes "closed e1" "closed e2" "plain lop"
  shows "scan None ((''('' @ e1 @ '') '' @ lop @ '' ('' @ e2 @ '')'') @ b) =
           scan None e1 @ scan None e2 @ scan None b"
proof -
  have "scan None ((''('' @ e1 @ '') '' @ lop @ '' ('' @ e2 @ '')'') @ b) =
        scan None (e1 @ ('') '' @ lop @ '' ('') @ e2 @ '')'' @ b)"
    using scan_outside[of "''(''"] by simp
  also have "\<dots> = scan None e1 @ scan None (('') '' @ lop @ '' ('') @ e2 @ '')'' @ b)"
    using assms(1) unfolding closed_def by blast
  also have "scan None (('') '' @ lop @ '' ('') @ e2 @ '')'' @ b) = scan None (e2 @ '')'' @ b)"
    using assms(3) by (intro scan_outside) (auto simp: plain_def)
  also have "\<dots> = scan None e2 @ scan None ('')'' @ b)"
    using assms(2) unfolding closed_def by blast
  also have "scan None ('')'' @ b) = scan None b" by simp
  finally show ?thesis .
qed

lemma join_closed:
  assumes "closed e1" "closed e2" "plain lop"
  shows "closed (''('' @ e1 @ '') '' @ lop @ '' ('' @ e2 @ '')'')"
    and "scan None (''('' @ e1 @ '') '' @ lop @ '' ('' @ e2 @ '')'') = scan None e1 @ scan None e2"
proof -
  from join_scan[OF assms, of "[]"]
  show e: "scan None (''('' @ e1 @ '') '' @ lop @ '' ('' @ e2 @ '')'') = scan None e1 @ scan None e2"
    by simp
  show "closed (''('' @ e1 @ '') '' @ lop @ '' ('' @ e2 @ '')'')"
    unfolding closed_def using join_scan[OF assms] e by simp
qed

lemma joinLogical_keyedResult:
  assumes "isLogicalOp op" "keyedResult r" "\<forall>a. acc = Some a \<longrightarrow> keyedResult a"
  shows "\<forall>a. joinLogical op acc r = Some a \<longrightarrow> keyedResult a"
proof (intro allI impI)
  fix a assume J: "joinLogical op acc r = Some a"
  show "keyedResult a"
  proof (cases "exprStr r = []")
    case True
    with J assms(3) show ?thesis by (simp add: joinLogical_def)
  next
    case False
    show ?thesis
    proof (cases acc)
      case None
      with J False assms(2) show ?thesis by (simp add: joinLogical_def)
    next
      case (Some c)
      with J False have a: "a = \<lparr>exprStr = ''('' @ exprStr c @ '') '' @ ToLower op @ '' ('' @ exprStr r @ '')'',
                params = params c ++ params r\<rparr>"
        by (simp add: joinLogical_def)
      from Some assms(3) have c: "keyedResult c" by simp
      from join_closed[of "exprStr c" "exprStr r" "ToLower op"] c assms(2) plain_ToLower_logical[OF assms(1)]
      show ?thesis unfolding a keyedResult_def placeholders_def by auto
    qed
  qed
qed

lemma cmp_keyedResult:
  assumes "convertComparisonCondition f op v n = (Ok r, k)" "plain f"
  shows "keyedResult r"
proof -
  from cmp_shape[OF assms(1)] obtain operator where o: "comparisonOperators op = Some operator"
    and e: "exprStr r = f @ '' '' @ operator @ '' {'' @ fst (convertParamName f n) @ ''}''"
    and p: "params r = [fst (convertParamName f n) \<mapsto> v]" by blast
  have pl: "plain (f @ '' '' @ operator @ '' '')"
    using assms(2) plain_operator[OF o] by (auto simp: plain_def)
  from leaf_closed[OF pl plain_name[OF assms(2), of n]] e p
  show ?thesis by (simp add: keyedResult_def placeholders_def)
qed

lemma in_keyedResult:
  assumes "convertInCondition f op v n = (Ok r, k)" "plain f" "isInOp op"
  shows "keyedResult r"
proof -
  from in_shape[OF assms(1)] have
    e: "exprStr r = f @ '' '' @ ToLower op @ '' {'' @ fst (convertParamName f n) @ ''}''"
    and p: "params r = [fst (convertParamName f n) \<mapsto> v]" by blast+
  have pl: "plain (f @ '' '' @ ToLower op @ '' '')"
    using assms(2) plain_ToLower_in[OF assms(3)] by (auto simp: plain_def)
  from leaf_closed[OF pl plain_name[OF assms(2), of n]] e p
  show ?thesis by (simp add: keyedResult_def placeholders_def)
qed

lemma between_keyedResult:
  assumes "convertBetweenCondition f v n = (Ok r, k)" "plain f"
  shows "keyedResult r"
proof -
  let ?nm = "fst (convertParamName f n)"
  from between_shape[OF assms(1)] have
    e: "exprStr r = f @ '' >= {'' @ ?nm @ ''_0} and '' @ f @ '' <= {'' @ ?nm @ ''_1}''"
    and p: "params r = [?nm @ ''_0'' \<mapsto> sliceIndex v 0, ?nm @ ''_1'' \<mapsto> sliceIndex v 1]" by blast+
  have n0: "plain (?nm @ ''_0'')" and n1: "plain (?nm @ ''_1'')"
    using plain_name[OF assms(2), of n] by (auto simp: plain_def)
  have a0: "plain (f @ '' >= '')" and a1: "plain ('' and '' @ f @ '' <= '')"
    using assms(2) by (auto simp: plain_def)
  have sc: "\<And>b. scan None (exprStr r @ b) = (?nm @ ''_0'') # (?nm @ ''_1'') # scan None b"
  proof -
    fix b
    have "exprStr r @ b = (f @ '' >= '') @ ''{'' @ (?nm @ ''_0'') @ ''}'' @
            (('' and '' @ f @ '' <= '') @ ''{'' @ (?nm @ ''_1'') @ ''}'' @ b)"
      by (simp add: e)
    then show "scan None (exprStr r @ b) = (?nm @ ''_0'') # (?nm @ ''_1'') # scan None b"
      using scan_placeholder[of "f @ '' >= ''" "?nm @ ''_0''"]
        scan_placeholder[of "'' and '' @ f @ '' <= ''" "?nm @ ''_1''" b]
        a0 a1 n0 n1 by (simp add: plain_def)
  qed
  from sc[of "[]"] have s0: "scan None (exprStr r) = [?nm @ ''_0'', ?nm @ ''_1'']" by simp
  with sc have "closed (exprStr r)" unfolding closed_def by simp
  with s0 p show ?thesis by (auto simp: keyedResult_def placeholders_def)
qed

lemma placeholders_are_keys:
  "plainFields c \<Longrightarrow> (\<forall>n r k. convertCondition c n = (Ok r, k) \<longrightarrow> keyedResult r)"
  "plainFieldsList cs \<Longrightarrow> (\<forall>op acc n res k. isLogicalOp op \<longrightarrow>
      convertLogicalLoop op cs acc n = (Ok res, k) \<longrightarrow> (\<forall>a. acc = Some a \<longrightarrow> keyedResult a) \<longrightarrow>
      (\<forall>a. res = Some a \<longrightarrow> keyedResult a))"
proof (induction c and cs rule: leafCount_leafCounts.induct)
  case 1
  then show ?case by simp
next
  case (2 f op v)
  show ?case
  proof (intro allI impI)
    fix n r k
    assume A: "convertCondition (Cond f op v) n = (Ok r, k)"
    consider (cmp) "isComparisonOp op" | (log) "\<not> isComparisonOp op" "isLogicalOp op"
      | (inop) "\<not> isComparisonOp op" "\<not> isLogicalOp op" "isInOp op"
      | (btw) "\<not> isComparisonOp op" "\<not> isLogicalOp op" "\<not> isInOp op" "op = operatorBetween"
      | (other) "\<not> isComparisonOp op" "\<not> isLogicalOp op" "\<not> isInOp op" "op \<noteq> operatorBetween"
      by blast
    then show "keyedResult r"
    proof cases
      case cmp
      from A have "convertComparisonCondition f op v n = (Ok r, k)" by (simp only: cc_cmp[OF cmp])
      moreover from cmp "2.prems" have "plain f"
        by (auto simp: isComparisonOp_def isLogicalOp_def operator_defs)
      ultimately show ?thesis by (rule cmp_keyedResult)
    next
      case log
      from cc_logical_Ok[OF log A] obtain cs where v: "v = VConds cs"
        and L: "convertLogicalLoop op cs None n = (Ok (Some r), k)" by blast
      from "2.prems" log v have pf: "plainFieldsList cs" by simp
      from "2.IH"[OF log(2) v pf, rule_format, OF log(2) L] show ?thesis by simp
    next
      case inop
      from A have "convertInCondition f op v n = (Ok r, k)" by (simp only: cc_in[OF inop])
      moreover from inop "2.prems" have "plain f" by simp
      ultimately show ?thesis using inop(3) by (rule in_keyedResult)
    next
      case btw
      from A have "convertBetweenCondition f v n = (Ok r, k)" by (simp only: cc_between[OF btw])
      moreover from btw "2.prems" have "plain f" by simp
      ultimately show ?thesis by (rule between_keyedResult)
    next
      case other
      from A show ?thesis by (simp only: cc_other[OF other]) simp
    qed
  qed
next
  case 3
  then show ?case by simp
next
  case (4 c cs)
  show ?case
  proof (intro allI impI)
    fix op acc n res k a
    assume lo: "isLogicalOp op"
      and A: "convertLogicalLoop op (c # cs) acc n = (Ok res, k)"
      and inv: "\<forall>a. acc = Some a \<longrightarrow> keyedResult a"
      and res: "res = Some a"
    from "4.prems" have pf: "plainFields c" "plainFieldsList cs" by simp_all
    from loop_Cons_Ok[OF A] obtain r k1 where A1: "convertCondition c n = (Ok r, k1)"
      and A2: "convertLogicalLoop op cs (joinLogical op acc r) k1 = (Ok res, k)"
      by blast
    from "4.IH"(1)[OF pf(1)] A1 have "keyedResult r" by blast
    from joinLogical_keyedResult[OF lo this inv]
    have "\<forall>a. joinLogical op acc r = Some a \<longrightarrow> keyedResult a" .
    from "4.IH"(2)[OF pf(2), rule_format, OF lo A2 this[rule_format] res]
    show "keyedResult a" .
  qed
qed

lemma Convert_placeholders_are_keys:
  assumes "Convert c = Ok r" "plainFields c"
  shows "set (placeholders (exprStr r)) = dom (params r)"
proof -
  from assms(1) obtain k where "convertCondition c 0 = (Ok r, k)"
    by (cases "convertCondition c 0") (simp add: Convert_def)
  with placeholders_are_keys(1)[OF assms(2)] show ?thesis by (auto simp: keyedResult_def)
qed

end
